theory Spec2Isabelle
  imports Complex_Main
begin

section \<open>Level 3 of the arcade game: the cell-growth simulation\<close>

text \<open>
  The embedding follows \<^verbatim>\<open>src/main.py\<close>: the class \<^verbatim>\<open>Container\<close> and, inside
  \<^verbatim>\<open>level_3\<close>, the classes \<^verbatim>\<open>Cell\<close>, \<^verbatim>\<open>Entity\<close> and \<^verbatim>\<open>Player\<close>.
  Python's unbounded \<^verbatim>\<open>int\<close> is \<^typ>\<open>int\<close>. Python's \<^verbatim>\<open>float\<close> and pygame's
  \<^verbatim>\<open>Vector2\<close> are idealised as \<^typ>\<open>real\<close> and pairs of reals: rounding error of the
  machine arithmetic is not modelled, and two vectors are equal when their coordinates
  are (pygame compares them up to a tolerance of \<open>10\<^sup>-\<^sup>6\<close>). Every exception the
  modelled code can raise is a value of \<open>py_error\<close>, returned as \<open>Inl\<close>.
\<close>

subsection \<open>Exceptions\<close>

datatype py_error =
  IndexError
  | ValueError
  | ZeroDivisionError
  | StopIteration
  | TypeError
  | ComplexResult
    \<comment> \<open>not a Python exception: \<^verbatim>\<open>mass ** 0.5\<close> of a negative mass is a complex number,
        which the real-valued model does not follow\<close>

definition bind :: "py_error + 'a \<Rightarrow> ('a \<Rightarrow> py_error + 'b) \<Rightarrow> py_error + 'b" where
  "bind m f = (case m of Inl e \<Rightarrow> Inl e | Inr x \<Rightarrow> f x)"

subsection \<open>Python lists: indexing and slicing\<close>

text \<open>\<^verbatim>\<open>xs[i]\<close>: a negative index counts from the end, an index out of range raises.\<close>

definition in_range :: "'a list \<Rightarrow> int \<Rightarrow> bool" where
  "in_range xs i = (- int (length xs) \<le> i \<and> i < int (length xs))"

definition py_nth :: "'a list \<Rightarrow> int \<Rightarrow> 'a" where
  "py_nth xs i = xs ! nat (if i < 0 then int (length xs) + i else i)"

definition getitem :: "'a list \<Rightarrow> int \<Rightarrow> py_error + 'a" where
  "getitem xs i = (if in_range xs i then Inr (py_nth xs i) else Inl IndexError)"

text \<open>\<^verbatim>\<open>xs[a:]\<close> and \<^verbatim>\<open>xs[:b]\<close>: a slice never raises, its bounds are clipped.\<close>

definition slice_bound :: "'a list \<Rightarrow> int \<Rightarrow> nat" where
  "slice_bound xs a = nat (if a < 0 then max 0 (int (length xs) + a) else a)"

definition slice_from :: "'a list \<Rightarrow> int \<Rightarrow> 'a list" where
  "slice_from xs a = drop (slice_bound xs a) xs"

definition slice_to :: "'a list \<Rightarrow> int \<Rightarrow> 'a list" where
  "slice_to xs b = take (slice_bound xs b) xs"

text \<open>
  \<^verbatim>\<open>min(xs, key=f)\<close> and \<^verbatim>\<open>max(xs, key=f)\<close>: the first element with the least
  (greatest) key; \<^verbatim>\<open>ValueError\<close> on an empty sequence.
\<close>

fun min_from :: "('a \<Rightarrow> 'k::linorder) \<Rightarrow> 'a \<Rightarrow> 'a list \<Rightarrow> 'a" where
  "min_from key best [] = best"
| "min_from key best (x # xs) = min_from key (if key x < key best then x else best) xs"

fun max_from :: "('a \<Rightarrow> 'k::linorder) \<Rightarrow> 'a \<Rightarrow> 'a list \<Rightarrow> 'a" where
  "max_from key best [] = best"
| "max_from key best (x # xs) = max_from key (if key best < key x then x else best) xs"

definition py_min :: "('a \<Rightarrow> 'k::linorder) \<Rightarrow> 'a list \<Rightarrow> py_error + 'a" where
  "py_min key xs = (case xs of [] \<Rightarrow> Inl ValueError | x # rest \<Rightarrow> Inr (min_from key x rest))"

definition py_max :: "('a \<Rightarrow> 'k::linorder) \<Rightarrow> 'a list \<Rightarrow> py_error + 'a" where
  "py_max key xs = (case xs of [] \<Rightarrow> Inl ValueError | x # rest \<Rightarrow> Inr (max_from key x rest))"

subsection \<open>Container\<close>

text \<open>
  \<^verbatim>\<open>Container\<close> holds the list \<^verbatim>\<open>__game_objects\<close> and the cursor \<^verbatim>\<open>__index\<close> of its
  iterator protocol. \<^verbatim>\<open>__iter__\<close> resets the cursor and returns the container itself;
  \<^verbatim>\<open>__next__\<close> advances the cursor first and returns the object under it afterwards.
\<close>

record 'a Container =
  game_objects :: "'a list"
  index :: nat

definition Container_iter :: "'a Container \<Rightarrow> 'a Container" where
  "Container_iter c = c\<lparr>index := 0\<rparr>"

definition Container_next :: "'a Container \<Rightarrow> py_error + ('a \<times> 'a Container)" where
  "Container_next c =
     (if index c + 1 < length (game_objects c)
      then Inr (game_objects c ! (index c + 1), c\<lparr>index := index c + 1\<rparr>)
      else Inl StopIteration)"

text \<open>
  \<^verbatim>\<open>for x in container\<close>: \<^verbatim>\<open>__next__\<close> is called until it raises \<^verbatim>\<open>StopIteration\<close>;
  \<open>for_items\<close> is the sequence of objects the loop body sees.
\<close>

function for_items :: "'a Container \<Rightarrow> 'a list" where
  "for_items c =
     (case Container_next c of
        Inl e \<Rightarrow> []
      | Inr (x, c') \<Rightarrow> x # for_items c')"
  by pat_completeness auto
termination
  by (relation "measure (\<lambda>c. length (game_objects c) - index c)")
     (auto simp: Container_next_def split: if_splits)

declare for_items.simps [simp del]

text \<open>
  The cursor is reset by every \<^verbatim>\<open>__iter__\<close>, so it carries nothing from one loop to
  the next: the level state below keeps only the object list of a container, and
  \<open>iterate objs\<close> is what \<^verbatim>\<open>for x in container\<close> yields for a container holding \<open>objs\<close>.
\<close>

definition iterate :: "'a list \<Rightarrow> 'a list" where
  "iterate objs = for_items (Container_iter \<lparr>game_objects = objs, index = 0\<rparr>)"

text \<open>
  \<^verbatim>\<open>sort(key)\<close> replaces the list by \<^verbatim>\<open>sorted(list, key=key)\<close>, a stable sort;
  \<^verbatim>\<open>add_object\<close> appends; \<^verbatim>\<open>remove_object\<close> calls the object's \<^verbatim>\<open>delete\<close> (a no-op
  for a cell) and \<^verbatim>\<open>list.remove\<close>, which removes the first occurrence and raises
  \<^verbatim>\<open>ValueError\<close> when there is none.
\<close>

definition Container_sort :: "('a \<Rightarrow> 'k::linorder) \<Rightarrow> 'a list \<Rightarrow> 'a list" where
  "Container_sort key objs = sort_key key objs"

definition add_object :: "'a \<Rightarrow> 'a list \<Rightarrow> 'a list" where
  "add_object x objs = objs @ [x]"

definition remove_object :: "'a \<Rightarrow> 'a list \<Rightarrow> py_error + 'a list" where
  "remove_object x objs = (if x \<in> set objs then Inr (remove1 x objs) else Inl ValueError)"

subsection \<open>Vector2\<close>

type_synonym Vector2 = "real \<times> real"

definition vadd :: "Vector2 \<Rightarrow> Vector2 \<Rightarrow> Vector2" where
  "vadd a b = (fst a + fst b, snd a + snd b)"

definition vsub :: "Vector2 \<Rightarrow> Vector2 \<Rightarrow> Vector2" where
  "vsub a b = (fst a - fst b, snd a - snd b)"

definition vscale :: "Vector2 \<Rightarrow> real \<Rightarrow> Vector2" where
  "vscale a k = (fst a * k, snd a * k)"

definition vneg :: "Vector2 \<Rightarrow> Vector2" where
  "vneg a = (- fst a, - snd a)"

definition magnitude :: "Vector2 \<Rightarrow> real" where
  "magnitude a = sqrt (fst a * fst a + snd a * snd a)"

definition distance_squared_to :: "Vector2 \<Rightarrow> Vector2 \<Rightarrow> real" where
  "distance_squared_to a b =
     (fst b - fst a) * (fst b - fst a) + (snd b - snd a) * (snd b - snd a)"

text \<open>
  \<^verbatim>\<open>clamp_magnitude(max_length)\<close> raises \<^verbatim>\<open>ValueError\<close> on a negative bound and shortens
  a longer vector to the bound. \<^verbatim>\<open>scale_to_length\<close> and \<^verbatim>\<open>normalize\<close> raise
  \<^verbatim>\<open>ValueError\<close> on the zero vector. \<^verbatim>\<open>lerp(other, t)\<close> raises \<^verbatim>\<open>ValueError\<close> unless
  \<open>0 \<le> t \<le> 1\<close>.
\<close>

definition clamp_magnitude :: "Vector2 \<Rightarrow> real \<Rightarrow> py_error + Vector2" where
  "clamp_magnitude a max_length =
     (if max_length < 0 then Inl ValueError
      else if magnitude a > max_length then Inr (vscale a (max_length / magnitude a))
      else Inr a)"

definition scale_to_length :: "Vector2 \<Rightarrow> real \<Rightarrow> py_error + Vector2" where
  "scale_to_length a len =
     (if magnitude a = 0 then Inl ValueError else Inr (vscale a (len / magnitude a)))"

definition normalize :: "Vector2 \<Rightarrow> py_error + Vector2" where
  "normalize a = (if magnitude a = 0 then Inl ValueError else Inr (vscale a (1 / magnitude a)))"

definition lerp :: "Vector2 \<Rightarrow> Vector2 \<Rightarrow> real \<Rightarrow> py_error + Vector2" where
  "lerp a b t =
     (if t < 0 \<or> 1 < t then Inl ValueError
      else Inr (vadd a (vscale (vsub b a) t)))"

subsection \<open>Cells and the level state\<close>

text \<open>
  A \<^verbatim>\<open>Cell\<close> object: the fields the simulation reads (colours and the rendered text are
  left out). Cells are shared, mutable objects: the population container \<^verbatim>\<open>cells\<close> and
  the list \<^verbatim>\<open>cells\<close> of an entity hold references to the same objects. A reference is a
  natural number, the store \<open>heap\<close> maps it to the object's current fields, and
  \<open>next_ref\<close> is the reference the next constructed object gets. The field \<open>cells\<close> of
  the level state is the object list of the population container \<^verbatim>\<open>cells\<close>.
\<close>

type_synonym ref = nat

record Cell =
  position :: Vector2
  mass :: int
  radius :: real
  sqr_radius :: real
  point_count :: int
  points :: "Vector2 list"
  speed :: real

record Level3 =
  heap :: "ref \<Rightarrow> Cell"
  cells :: "ref list"
  next_ref :: ref

definition WIN_SIZE :: "real \<times> real" where
  "WIN_SIZE = (720, 720)"

definition MAX_FPS :: real where
  "MAX_FPS = 144"

subsection \<open>The classifier queries\<close>

text \<open>
  \<^verbatim>\<open>Cell.get_predators\<close>: the scan starts at the last index and steps upwards while the
  cell under it is heavier than \<open>mass + 1024\<close> and the next index is still in range.
\<close>

function get_predators_scan :: "Level3 \<Rightarrow> int \<Rightarrow> int \<Rightarrow> py_error + int" where
  "get_predators_scan s m i =
     (case getitem (cells s) i of
        Inl e \<Rightarrow> Inl e
      | Inr c \<Rightarrow>
          if Cell.mass (heap s c) > m + 1024 \<and> i + 1 < int (length (cells s))
          then get_predators_scan s m (i + 1)
          else Inr i)"
  by pat_completeness auto
termination
  by (relation "measure (\<lambda>(s, m, i). nat (int (length (cells s)) - i))") auto

declare get_predators_scan.simps [simp del]

definition get_predators :: "Level3 \<Rightarrow> int \<Rightarrow> py_error + ref list" where
  "get_predators s m =
     bind (get_predators_scan s m (int (length (cells s)) - 1))
       (\<lambda>i. Inr (slice_from (cells s) (i + 1)))"

text \<open>
  \<^verbatim>\<open>Cell.get_preys\<close>: the scan starts at index 0 and steps upwards while the cell under
  it is lighter than \<open>mass - 1024\<close>; the index is not checked against the length.
\<close>

function get_preys_scan :: "Level3 \<Rightarrow> int \<Rightarrow> int \<Rightarrow> py_error + int" where
  "get_preys_scan s m i =
     (case getitem (cells s) i of
        Inl e \<Rightarrow> Inl e
      | Inr c \<Rightarrow>
          if Cell.mass (heap s c) + 1024 < m
          then get_preys_scan s m (i + 1)
          else Inr i)"
  by pat_completeness auto
termination
  by (relation "measure (\<lambda>(s, m, i). nat (int (length (cells s)) - i))")
     (auto simp: getitem_def in_range_def split: if_splits)

declare get_preys_scan.simps [simp del]

definition get_preys :: "Level3 \<Rightarrow> int \<Rightarrow> py_error + ref list" where
  "get_preys s m = bind (get_preys_scan s m 0) (\<lambda>i. Inr (slice_to (cells s) i))"

text \<open>\<^verbatim>\<open>Cell.get_radius\<close>, \<^verbatim>\<open>(mass / pi) ** 0.5\<close>, for a mass that is not negative.\<close>

definition get_radius :: "int \<Rightarrow> real" where
  "get_radius m = sqrt (real_of_int m / pi)"

definition get_near_predators :: "Level3 \<Rightarrow> int \<Rightarrow> Vector2 \<Rightarrow> py_error + ref list" where
  "get_near_predators s m pos =
     bind (get_predators s m)
       (\<lambda>ps. Inr (filter (\<lambda>x. distance_squared_to pos (position (heap s x))
                                  \<le> sqr_radius (heap s x) * 16) ps))"

text \<open>
  \<^verbatim>\<open>Cell.get_near_preys\<close> compares the squared distance of every prey with
  \<^verbatim>\<open>cls.get_radius(mass) ** 2 * 16.0\<close>. For a negative mass that bound is a complex number,
  and the comparison of a float with it raises \<^verbatim>\<open>TypeError\<close> at the first prey; with no
  prey the comparison is never made.
\<close>

definition get_near_preys :: "Level3 \<Rightarrow> int \<Rightarrow> Vector2 \<Rightarrow> py_error + ref list" where
  "get_near_preys s m pos =
     bind (get_preys s m)
       (\<lambda>ps. if m < 0 \<and> ps \<noteq> [] then Inl TypeError
             else Inr (filter (\<lambda>x. distance_squared_to pos (position (heap s x))
                                        \<le> (get_radius m)\<^sup>2 * 16) ps))"

definition get_nearest_prey :: "Level3 \<Rightarrow> int \<Rightarrow> Vector2 \<Rightarrow> py_error + ref" where
  "get_nearest_prey s m pos =
     bind (get_preys s m)
       (py_min (\<lambda>x. distance_squared_to pos (position (heap s x))))"

definition get_most_perspective_prey :: "Level3 \<Rightarrow> int \<Rightarrow> Vector2 \<Rightarrow> py_error + ref" where
  "get_most_perspective_prey s m pos =
     bind (get_near_preys s m pos) (py_max (\<lambda>x. Cell.mass (heap s x)))"

text \<open>
  The prey candidates of \<^verbatim>\<open>Player.update\<close>, the comprehension
  \<^verbatim>\<open>[i for i in cells if i.mass * 1.125 < cell.mass]\<close>, which goes through the iterator
  protocol of the container.
\<close>

definition prey_candidates :: "Level3 \<Rightarrow> ref \<Rightarrow> ref list" where
  "prey_candidates s c =
     filter (\<lambda>i. real_of_int (Cell.mass (heap s i)) * 1.125 < real_of_int (Cell.mass (heap s c)))
       (iterate (cells s))"

subsection \<open>Cell: derived values, construction, mass change\<close>

text \<open>\<^verbatim>\<open>round\<close> of a float: to the nearest integer, a tie to the even one.\<close>

definition py_round :: "real \<Rightarrow> int" where
  "py_round x =
     (if x - of_int \<lfloor>x\<rfloor> < 1 / 2 then \<lfloor>x\<rfloor>
      else if 1 / 2 < x - of_int \<lfloor>x\<rfloor> then \<lfloor>x\<rfloor> + 1
      else if even \<lfloor>x\<rfloor> then \<lfloor>x\<rfloor> else \<lfloor>x\<rfloor> + 1)"

definition get_point_count :: "real \<Rightarrow> int" where
  "get_point_count r = py_round (2 * pi * r / 10 + 8)"

text \<open>
  \<^verbatim>\<open>1024.0 / mass ** 0.5\<close> raises \<^verbatim>\<open>ZeroDivisionError\<close> for mass 0; for a negative
  mass Python goes on with complex numbers, where this model stops.
\<close>

definition get_speed :: "int \<Rightarrow> py_error + real" where
  "get_speed m =
     (if m = 0 then Inl ZeroDivisionError
      else if m < 0 then Inl ComplexResult
      else Inr (1024 / sqrt (real_of_int m)))"

text \<open>
  \<^verbatim>\<open>Cell.__init__\<close>: the new object is registered in the population container first,
  then its fields are set. Both call sites of \<^verbatim>\<open>get_point_count\<close> pass the mass.
\<close>

definition Cell_init :: "Vector2 \<Rightarrow> int \<Rightarrow> Level3 \<Rightarrow> py_error + (ref \<times> Level3)" where
  "Cell_init pos m s =
     bind (get_speed m) (\<lambda>v.
       Inr (next_ref s,
            \<lparr>heap = (heap s)(next_ref s :=
                      \<lparr>position = pos, mass = m,
                       radius = get_radius m,
                       sqr_radius = get_radius m * get_radius m,
                       point_count = get_point_count (real_of_int m),
                       points = replicate (nat (get_point_count (real_of_int m))) pos,
                       speed = v\<rparr>),
             cells = add_object (next_ref s) (cells s),
             next_ref = next_ref s + 1\<rparr>))"

text \<open>
  \<^verbatim>\<open>Cell.update_values\<close>: the derived fields are recomputed, missing outline points
  are appended as copies of the last one (\<^verbatim>\<open>points[-1]\<close> raises on an empty list), and
  the population container is sorted by mass.
\<close>

definition grow_points :: "Vector2 list \<Rightarrow> int \<Rightarrow> py_error + Vector2 list" where
  "grow_points ps n =
     (if n - int (length ps) \<le> 0 then Inr ps
      else if ps = [] then Inl IndexError
      else Inr (ps @ replicate (nat (n - int (length ps))) (last ps)))"

definition update_values :: "ref \<Rightarrow> Level3 \<Rightarrow> py_error + Level3" where
  "update_values c s =
     (let m = Cell.mass (heap s c); n = get_point_count (real_of_int m) in
      bind (grow_points (points (heap s c)) n) (\<lambda>ps.
      bind (get_speed m) (\<lambda>v.
        let h = (heap s)(c := (heap s c)\<lparr>radius := get_radius m,
                                          sqr_radius := get_radius m * get_radius m,
                                          point_count := n, points := ps, speed := v\<rparr>)
        in Inr (s\<lparr>heap := h, cells := Container_sort (\<lambda>x. Cell.mass (h x)) (cells s)\<rparr>))))"

definition change_mass :: "ref \<Rightarrow> int \<Rightarrow> Level3 \<Rightarrow> py_error + Level3" where
  "change_mass c change s =
     update_values c (s\<lparr>heap := (heap s)(c := (heap s c)\<lparr>mass := Cell.mass (heap s c) + change\<rparr>)\<rparr>)"

text \<open>\<^verbatim>\<open>start_new_game\<close> of level 3 sorts the population by mass.\<close>

definition start_new_game :: "Level3 \<Rightarrow> Level3" where
  "start_new_game s = s\<lparr>cells := Container_sort (\<lambda>x. Cell.mass (heap s x)) (cells s)\<rparr>"

subsection \<open>Cell: movement\<close>

text \<open>
  \<^verbatim>\<open>Cell.move_cell(destination)\<close>: nothing happens at the destination; otherwise the step
  towards it, no longer than \<open>speed * delta_time\<close>, is added to the position and to every
  outline point. \<^verbatim>\<open>delta_time\<close> is a global of the program, a parameter here.
\<close>

definition move_cell :: "real \<Rightarrow> ref \<Rightarrow> Vector2 \<Rightarrow> Level3 \<Rightarrow> py_error + Level3" where
  "move_cell delta_time c destination s =
     (if position (heap s c) = destination then Inr s
      else bind (clamp_magnitude (vsub destination (position (heap s c)))
                   (speed (heap s c) * delta_time))
             (\<lambda>direction.
                Inr (s\<lparr>heap := (heap s)(c := (heap s c)
                       \<lparr>position := vadd (position (heap s c)) direction,
                        points := map (\<lambda>point. vadd point direction) (points (heap s c))\<rparr>)\<rparr>)))"

text \<open>
  \<^verbatim>\<open>Cell.move_points\<close>: outline point number \<open>n\<close> approaches its place on the circle
  around the cell, clipped to the window and kept at half a radius from the centre.
\<close>

definition clip_to_window :: "Vector2 \<Rightarrow> Vector2" where
  "clip_to_window v =
     (max 0 (min (fst v) (fst WIN_SIZE)), max 0 (min (snd v) (snd WIN_SIZE)))"

definition outline_destination :: "Cell \<Rightarrow> nat \<Rightarrow> py_error + Vector2" where
  "outline_destination cell n =
     (if point_count cell = 0 then Inl ZeroDivisionError
      else
        let angle = real n / real_of_int (point_count cell) * pi * 2;
            destination = clip_to_window
              (vadd (vscale (cos angle, sin angle) (radius cell)) (position cell))
        in if 0 < distance_squared_to (position cell) destination
              \<and> distance_squared_to (position cell) destination \<le> sqr_radius cell / 4
           then bind (normalize (vsub destination (position cell)))
                  (\<lambda>u. Inr (vadd (vscale u (radius cell / 2)) (position cell)))
           else Inr destination)"

fun move_points_from :: "real \<Rightarrow> Cell \<Rightarrow> nat \<Rightarrow> Vector2 list \<Rightarrow> py_error + Vector2 list" where
  "move_points_from delta_time cell n [] = Inr []"
| "move_points_from delta_time cell n (point # rest) =
     bind (outline_destination cell n) (\<lambda>destination.
     bind (lerp point destination (min (delta_time * 2) 1)) (\<lambda>moved.
     bind (move_points_from delta_time cell (Suc n) rest) (\<lambda>others.
       Inr (moved # others))))"

definition move_points :: "real \<Rightarrow> ref \<Rightarrow> Level3 \<Rightarrow> py_error + Level3" where
  "move_points delta_time c s =
     bind (move_points_from delta_time (heap s c) 0 (points (heap s c)))
       (\<lambda>ps. Inr (s\<lparr>heap := (heap s)(c := (heap s c)\<lparr>points := ps\<rparr>)\<rparr>))"

text \<open>
  \<^verbatim>\<open>Cell.update\<close>: the move towards the destination of the owning entity, the clamp of
  the position to the window, the outline.
\<close>

definition Cell_update :: "real \<Rightarrow> ref \<Rightarrow> Vector2 \<Rightarrow> Level3 \<Rightarrow> py_error + Level3" where
  "Cell_update delta_time c destination s =
     bind (move_cell delta_time c destination s) (\<lambda>s1.
       move_points delta_time c
         (s1\<lparr>heap := (heap s1)(c := (heap s1 c)
                \<lparr>position := clip_to_window (position (heap s1 c))\<rparr>)\<rparr>))"

definition intersects :: "Cell \<Rightarrow> Cell \<Rightarrow> bool" where
  "intersects a b =
     (distance_squared_to (position a) (position b) < (radius a + radius b)\<^sup>2)"

subsection \<open>Entity and Player\<close>

text \<open>
  An entity: its cell count, the references of its own cells (the field \<^verbatim>\<open>cells\<close> of the
  class, named \<open>entity_cells\<close> here, \<open>cells\<close> being the population container) and its
  destination. \<^verbatim>\<open>Entity.update\<close> updates every own cell.
\<close>

record Entity =
  cell_count :: int
  entity_cells :: "ref list"
  destination :: Vector2

fun update_cells :: "real \<Rightarrow> Vector2 \<Rightarrow> ref list \<Rightarrow> Level3 \<Rightarrow> py_error + Level3" where
  "update_cells delta_time dest [] s = Inr s"
| "update_cells delta_time dest (c # rest) s =
     bind (Cell_update delta_time c dest s) (update_cells delta_time dest rest)"

definition Entity_update :: "real \<Rightarrow> Entity \<Rightarrow> Level3 \<Rightarrow> py_error + Level3" where
  "Entity_update delta_time e s = update_cells delta_time (destination e) (entity_cells e) s"

text \<open>
  \<^verbatim>\<open>Entity.push_away\<close>, the body of its inner loop for one pair of own cells. The test
  \<^verbatim>\<open>direction == 0\<close> compares a vector with a number and is never true. Both calls of
  \<^verbatim>\<open>move_cell\<close> get a multiple of the scaled direction, by the share
  \<^verbatim>\<open>cell2.mass / mass\<close>, as the destination.
\<close>

definition vector_equals_number :: "Vector2 \<Rightarrow> real \<Rightarrow> bool" where
  "vector_equals_number v x = False"

definition push_pair :: "real \<Rightarrow> ref \<Rightarrow> ref \<Rightarrow> Level3 \<Rightarrow> py_error + Level3" where
  "push_pair delta_time cell1 cell2 s =
     (if intersects (heap s cell1) (heap s cell2) then
        let direction = vsub (position (heap s cell2)) (position (heap s cell1)) in
        if fst direction = 0 \<or> vector_equals_number direction 0 then Inr s
        else
          let m = Cell.mass (heap s cell1) + Cell.mass (heap s cell2);
              distance = radius (heap s cell1) + radius (heap s cell2) - magnitude direction
          in bind (scale_to_length direction distance) (\<lambda>direction.
               if m = 0 then Inl ZeroDivisionError
               else
                 bind (move_cell delta_time cell1
                         (vscale (vneg direction)
                            (real_of_int (Cell.mass (heap s cell2)) / real_of_int m)) s)
                   (\<lambda>s1. move_cell delta_time cell2
                           (vscale direction
                              (real_of_int (Cell.mass (heap s1 cell2)) / real_of_int m)) s1))
      else Inr s)"

fun push_inner :: "real \<Rightarrow> ref \<Rightarrow> ref list \<Rightarrow> Level3 \<Rightarrow> py_error + Level3" where
  "push_inner delta_time cell1 [] s = Inr s"
| "push_inner delta_time cell1 (cell2 # rest) s =
     bind (push_pair delta_time cell1 cell2 s) (push_inner delta_time cell1 rest)"

fun push_outer :: "real \<Rightarrow> ref list \<Rightarrow> Level3 \<Rightarrow> py_error + Level3" where
  "push_outer delta_time [] s = Inr s"
| "push_outer delta_time (cell1 # rest) s =
     bind (push_inner delta_time cell1 rest s) (push_outer delta_time rest)"

definition push_away :: "real \<Rightarrow> Entity \<Rightarrow> Level3 \<Rightarrow> py_error + Level3" where
  "push_away delta_time e s =
     (if cell_count e = 1 then Inr s else push_outer delta_time (entity_cells e) s)"

text \<open>
  \<^verbatim>\<open>Player.update\<close>: the own cells are updated towards the destination of the last frame,
  the destination becomes the pointer position, every own cell absorbs its nearest prey
  candidate when that lies within half its radius, and the own cells are pushed apart.
  (The food timer, which nothing reads, is left out.)
\<close>

definition absorb :: "ref \<Rightarrow> Level3 \<Rightarrow> py_error + Level3" where
  "absorb cell s =
     (let preys = prey_candidates s cell in
      if length preys > 0 then
        bind (py_min (\<lambda>x. distance_squared_to (position (heap s x)) (position (heap s cell))) preys)
          (\<lambda>prey.
             if distance_squared_to (position (heap s prey)) (position (heap s cell))
                  \<le> sqr_radius (heap s cell) / 4
             then bind (change_mass cell (Cell.mass (heap s prey)) s) (\<lambda>s1.
                  bind (remove_object prey (cells s1)) (\<lambda>objs.
                    Inr (s1\<lparr>cells := objs\<rparr>)))
             else Inr s)
      else Inr s)"

fun absorb_all :: "ref list \<Rightarrow> Level3 \<Rightarrow> py_error + Level3" where
  "absorb_all [] s = Inr s"
| "absorb_all (cell # rest) s = bind (absorb cell s) (absorb_all rest)"

definition Player_update ::
    "real \<Rightarrow> Vector2 \<Rightarrow> Entity \<Rightarrow> Level3 \<Rightarrow> py_error + (Entity \<times> Level3)" where
  "Player_update delta_time mouse e s =
     bind (Entity_update delta_time e s) (\<lambda>s1.
       let e1 = e\<lparr>destination := mouse\<rparr> in
       bind (absorb_all (entity_cells e1) s1) (\<lambda>s2.
       bind (push_away delta_time e1 s2) (\<lambda>s3.
         Inr (e1, s3))))"

subsection \<open>States that differ in geometry only\<close>

text \<open>
  \<open>moved_only s s'\<close>: the state \<open>s'\<close> has the population, the masses and the values
  derived from the masses of \<open>s\<close>; positions and outline points may differ. This is what
  the movement of cells can change.
\<close>

definition moved_only :: "Level3 \<Rightarrow> Level3 \<Rightarrow> bool" where
  "moved_only s s' =
     (cells s' = cells s \<and> next_ref s' = next_ref s
      \<and> (\<forall>r. Cell.mass (heap s' r) = Cell.mass (heap s r)
             \<and> radius (heap s' r) = radius (heap s r)
             \<and> sqr_radius (heap s' r) = sqr_radius (heap s r)
             \<and> point_count (heap s' r) = point_count (heap s r)
             \<and> speed (heap s' r) = speed (heap s r)))"

text \<open>
  \<open>movable s c\<close>: the cell \<open>c\<close> has a positive mass, a non-negative speed and a point
  count other than 0, as every constructed cell has; then its moves raise no exception.
\<close>

definition movable :: "Level3 \<Rightarrow> ref \<Rightarrow> bool" where
  "movable s c = (0 \<le> speed (heap s c) \<and> 0 < Cell.mass (heap s c) \<and> point_count (heap s c) \<noteq> 0)"

subsection \<open>Concrete populations\<close>

text \<open>
  \<open>cell_at pos m\<close> is the object \<^verbatim>\<open>Cell.__init__\<close> builds at position \<open>pos\<close> with a
  positive mass \<open>m\<close>, and \<open>population ps\<close> is the level state after cells with the listed
  positions and masses were constructed in this order: cell number \<open>k\<close> has reference
  \<open>k\<close>, and the container lists them in construction order.
\<close>

definition cell_at :: "Vector2 \<Rightarrow> int \<Rightarrow> Cell" where
  "cell_at pos m =
     \<lparr>position = pos, mass = m,
      radius = get_radius m,
      sqr_radius = get_radius m * get_radius m,
      point_count = get_point_count (real_of_int m),
      points = replicate (nat (get_point_count (real_of_int m))) pos,
      speed = 1024 / sqrt (real_of_int m)\<rparr>"

definition population :: "(Vector2 \<times> int) list \<Rightarrow> Level3" where
  "population ps =
     \<lparr>heap = (\<lambda>r. cell_at (fst (ps ! r)) (snd (ps ! r))),
      cells = [0..<length ps],
      next_ref = length ps\<rparr>"

subsection \<open>The course of the level\<close>

text \<open>
  \<^verbatim>\<open>level_3\<close> first constructs the entities, each of which constructs its cells, then
  calls \<^verbatim>\<open>start_new_game\<close> and enters the frame loop. In a frame the entities and then all
  cells are updated: cells move (\<^verbatim>\<open>Cell.update\<close>), the cells of the player absorb
  (\<^verbatim>\<open>Player.update\<close>) and are pushed apart (\<^verbatim>\<open>push_away\<close>). \<open>reachable started s\<close>
  holds for the level states \<open>s\<close> this can produce, \<open>started\<close> telling whether
  \<^verbatim>\<open>start_new_game\<close> has run. No cell is constructed after the start.
\<close>

definition sorted_by_mass :: "Level3 \<Rightarrow> bool" where
  "sorted_by_mass s = sorted (map (\<lambda>r. Cell.mass (heap s r)) (cells s))"

inductive reachable :: "bool \<Rightarrow> Level3 \<Rightarrow> bool" where
  initial: "reachable False (population [])"
| construct: "reachable False s \<Longrightarrow> Cell_init pos m s = Inr (r, s') \<Longrightarrow> reachable False s'"
| start: "reachable False s \<Longrightarrow> reachable True (start_new_game s)"
| cell_update: "reachable True s \<Longrightarrow> Cell_update delta_time c dest s = Inr s' \<Longrightarrow> reachable True s'"
| absorption: "reachable True s \<Longrightarrow> absorb c s = Inr s' \<Longrightarrow> reachable True s'"
| push: "reachable True s \<Longrightarrow> push_away delta_time e s = Inr s' \<Longrightarrow> reachable True s'"

text \<open>
  Two overlapping cells of one entity on the line through the window's origin with
  direction \<open>(3, 4)\<close>, five units apart: \<open>siblings\<close> inside the window, the heavier cell
  nearer to the origin, and \<open>at_corner\<close> with one cell in the corner of the window.
  \<open>pair_of_cells\<close> is an entity owning the cells 0 and 1.
\<close>

definition siblings :: Level3 where
  "siblings = population [((303, 404), 4096), ((300, 400), 9216)]"

definition at_corner :: Level3 where
  "at_corner = population [((0, 0), 4096), ((3, 4), 4096)]"

definition at_corner_pushed :: Level3 where
  "at_corner_pushed = at_corner\<lparr>heap := (heap at_corner)
     (0 := (heap at_corner 0)
        \<lparr>position := (- 1 / 15, - 4 / 45),
         points := map (\<lambda>point. vadd point (- 1 / 15, - 4 / 45)) (points (heap at_corner 0))\<rparr>,
      1 := (heap at_corner 1)
        \<lparr>position := (3 + 1 / 15, 4 + 4 / 45),
         points := map (\<lambda>point. vadd point (1 / 15, 4 / 45)) (points (heap at_corner 1))\<rparr>)\<rparr>"

definition pair_of_cells :: Entity where
  "pair_of_cells = \<lparr>cell_count = 2, entity_cells = [0, 1], destination = (300, 400)\<rparr>"

text \<open>A single cell of mass 4096 close to the right border of the window.\<close>

definition near_border :: Level3 where
  "near_border = population [((14399 / 20, 100), 4096)]"

text \<open>
  A population sorted by mass: a cell of mass 500 and the two cells of the player, of mass
  1000, the first of them at the place of the light cell and at the player's destination.
\<close>

definition with_prey :: Level3 where
  "with_prey = population [((100, 100), 500), ((100, 100), 1000), ((101, 101), 1000)]"

definition player :: Entity where
  "player = \<lparr>cell_count = 2, entity_cells = [1, 2], destination = (100, 100)\<rparr>"

section \<open>Properties\<close>

subsection \<open>Iteration over a container\<close>

lemma for_items_drop: "for_items c = drop (index c + 1) (game_objects c)"
proof (induction c rule: for_items.induct)
  case (1 c)
  show ?case
  proof (cases "index c + 1 < length (game_objects c)")
    case True
    then have n: "Container_next c = Inr (game_objects c ! (index c + 1), c\<lparr>index := index c + 1\<rparr>)"
      by (simp add: Container_next_def)
    have "for_items c = game_objects c ! (index c + 1) # for_items (c\<lparr>index := index c + 1\<rparr>)"
      by (subst for_items.simps) (simp add: n)
    also have "for_items (c\<lparr>index := index c + 1\<rparr>) = drop (index c + 2) (game_objects c)"
      using "1.IH"[OF n refl] by simp
    finally show ?thesis using True
      by (simp add: Cons_nth_drop_Suc)
  next
    case False
    then have "Container_next c = Inl StopIteration" by (simp add: Container_next_def)
    then have "for_items c = []" by (subst for_items.simps) simp
    then show ?thesis using False by simp
  qed
qed

lemma iterate_tl: "iterate objs = tl objs"
  by (simp add: iterate_def Container_iter_def for_items_drop drop_Suc)

lemma iterate_nth: "iterate objs = map ((!) objs) [1..<length objs]"
proof (rule nth_equalityI)
  show "length (iterate objs) = length (map ((!) objs) [1..<length objs])"
    by (simp add: iterate_tl)
next
  fix i assume "i < length (iterate objs)"
  then have i: "i < length objs - 1" by (simp add: iterate_tl)
  then have "tl objs ! i = objs ! Suc i" by (simp add: nth_tl)
  with i show "iterate objs ! i = map ((!) objs) [1..<length objs] ! i"
    by (simp add: iterate_tl)
qed

lemma first_not_iterated: "distinct objs \<Longrightarrow> objs \<noteq> [] \<Longrightarrow> objs ! 0 \<notin> set (iterate objs)"
  by (cases objs) (simp_all add: iterate_tl)

lemma sorted_first_least: "sorted (map f xs) \<Longrightarrow> r \<in> set xs \<Longrightarrow> f (xs ! 0) \<le> f r"
  by (cases xs) auto

lemma heap_population: "heap (population ps) r = cell_at (fst (ps ! r)) (snd (ps ! r))"
  by (simp add: population_def)

lemma cells_population: "cells (population ps) = [0..<length ps]"
  by (simp add: population_def)

lemma mass_cell_at: "Cell.mass (cell_at p m) = m"
  by (simp add: cell_at_def)

text \<open>
  Claim C10. A \<^verbatim>\<open>for\<close> loop over a container holding at least one object yields
  exactly the objects at the indices \<open>1\<close> to \<open>n - 1\<close>, in order, and not the object at
  index \<open>0\<close>. In the population sorted by mass the object at index \<open>0\<close> is a cell of
  least mass, and the prey candidates of \<^verbatim>\<open>Player.update\<close>, which are collected by such
  a loop, never contain it.
\<close>

theorem Container_iteration_omits_index_0:
  assumes "1 \<le> length objs" and "distinct objs"
    and "cells s \<noteq> []" and "distinct (cells s)"
    and "sorted (map (\<lambda>r. Cell.mass (heap s r)) (cells s))"
  shows "iterate objs = map ((!) objs) [1..<length objs]
       \<and> objs ! 0 \<notin> set (iterate objs)
       \<and> (\<forall>r\<in>set (cells s). Cell.mass (heap s (cells s ! 0)) \<le> Cell.mass (heap s r))
       \<and> cells s ! 0 \<notin> set (prey_candidates s c)"
proof -
  have "objs \<noteq> []" using assms(1) by auto
  then have a: "objs ! 0 \<notin> set (iterate objs)"
    using assms(2) by (simp add: first_not_iterated)
  have b: "\<forall>r\<in>set (cells s). Cell.mass (heap s (cells s ! 0)) \<le> Cell.mass (heap s r)"
    using sorted_first_least[OF assms(5)] by blast
  have "cells s ! 0 \<notin> set (iterate (cells s))"
    using assms(3,4) by (simp add: first_not_iterated)
  then have c: "cells s ! 0 \<notin> set (prey_candidates s c)"
    by (simp add: prey_candidates_def)
  from a b c show ?thesis by (simp add: iterate_nth)
qed

theorem Container_iteration_omits_index_0_witness:
  "1 \<le> length [10, 20, 30 :: nat] \<and> distinct [10, 20, 30 :: nat]
   \<and> cells (population [((0, 0), 16), ((0, 0), 4096), ((0, 0), 4096)]) = [0, 1, 2]
   \<and> sorted (map (\<lambda>r. Cell.mass (heap (population [((0, 0), 16), ((0, 0), 4096), ((0, 0), 4096)]) r))
         (cells (population [((0, 0), 16), ((0, 0), 4096), ((0, 0), 4096)])))
   \<and> iterate [10, 20, 30 :: nat] = [20, 30]
   \<and> (10::nat) \<notin> set (iterate [10, 20, 30])
   \<and> 0 \<notin> set (prey_candidates (population [((0, 0), 16), ((0, 0), 4096), ((0, 0), 4096)]) 1)"
proof -
  let ?s = "population [((0, 0), 16), ((0, 0), 4096), ((0, 0), 4096)]"
  have cs: "cells ?s = [0, 1, 2]" by (simp add: cells_population upt_rec)
  have h1: "(1::nat) \<le> length [10, 20, 30 :: nat]" by simp
  have h2: "distinct [10, 20, 30 :: nat]" by simp
  have h3: "cells ?s \<noteq> []" by (simp add: cs)
  have h4: "distinct (cells ?s)" by (simp add: cs)
  have h5: "sorted (map (\<lambda>r. Cell.mass (heap ?s r)) (cells ?s))"
    by (simp add: cs heap_population mass_cell_at)
  note t = Container_iteration_omits_index_0[OF h1 h2 h3 h4 h5, of 1]
  have it: "iterate [10, 20, 30 :: nat] = [20, 30]" using t by (simp add: upt_rec)
  have no: "(10::nat) \<notin> set (iterate [10, 20, 30])" using t by simp
  have pc: "0 \<notin> set (prey_candidates ?s 1)" using t by (simp add: cs)
  from h1 h2 cs h5 it no pc show ?thesis by blast
qed

subsection \<open>The classifier queries\<close>

lemma getitem_nat: "i < length xs \<Longrightarrow> getitem xs (int i) = Inr (xs ! i)"
  by (simp add: getitem_def in_range_def py_nth_def)

lemma getitem_beyond: "length xs \<le> i \<Longrightarrow> getitem xs (int i) = Inl IndexError"
  by (simp add: getitem_def in_range_def)

lemma get_predators_scan_last:
  assumes "length (cells s) = Suc k"
  shows "get_predators_scan s m (int k) = Inr (int k)"
proof -
  have "getitem (cells s) (int k) = Inr (cells s ! k)"
    using assms by (simp add: getitem_nat)
  then show ?thesis
    by (subst get_predators_scan.simps) (simp add: assms)
qed

lemma get_predators_nonempty:
  assumes "cells s \<noteq> []"
  shows "get_predators s m = Inr []"
proof -
  from assms obtain k where k: "length (cells s) = Suc k"
    by (cases "cells s") auto
  show ?thesis
    using get_predators_scan_last[OF k]
    by (simp add: get_predators_def bind_def slice_from_def slice_bound_def k)
qed

lemma get_predators_empty: "cells s = [] \<Longrightarrow> get_predators s m = Inl IndexError"
  by (simp add: get_predators_def bind_def get_predators_scan.simps getitem_def in_range_def)

lemma get_preys_scan_takeWhile:
  assumes "\<exists>j. i \<le> j \<and> j < length (cells s) \<and> \<not> Cell.mass (heap s (cells s ! j)) + 1024 < m"
  shows "get_preys_scan s m (int i) =
           Inr (int (i + length (takeWhile (\<lambda>r. Cell.mass (heap s r) + 1024 < m) (drop i (cells s)))))"
  using assms
proof (induction "length (cells s) - i" arbitrary: i)
  case 0
  then show ?case by auto
next
  case (Suc k)
  from Suc.prems obtain j where j: "i \<le> j" "j < length (cells s)"
    "\<not> Cell.mass (heap s (cells s ! j)) + 1024 < m" by blast
  then have il: "i < length (cells s)" by simp
  have g: "getitem (cells s) (int i) = Inr (cells s ! i)" using il by (rule getitem_nat)
  have d: "drop i (cells s) = cells s ! i # drop (Suc i) (cells s)"
    using il by (simp add: Cons_nth_drop_Suc)
  show ?case
  proof (cases "Cell.mass (heap s (cells s ! i)) + 1024 < m")
    case True
    then have "i \<noteq> j" using j by auto
    then have ex: "\<exists>j. Suc i \<le> j \<and> j < length (cells s) \<and> \<not> Cell.mass (heap s (cells s ! j)) + 1024 < m"
      using j by (intro exI[of _ j]) auto
    have k: "k = length (cells s) - Suc i" using Suc.hyps(2) by simp
    have "get_preys_scan s m (int i) = get_preys_scan s m (int (Suc i))"
      by (subst get_preys_scan.simps) (simp add: g True add.commute)
    also note Suc.hyps(1)[OF k ex]
    finally show ?thesis using True by (simp add: d)
  next
    case False
    then show ?thesis
      by (subst get_preys_scan.simps) (simp add: g d)
  qed
qed

lemma takeWhile_filter_sorted:
  fixes f :: "'a \<Rightarrow> int"
  assumes "sorted (map f xs)"
  shows "takeWhile (\<lambda>r. f r < t) xs = filter (\<lambda>r. f r < t) xs"
  using assms
proof (induction xs)
  case Nil
  then show ?case by simp
next
  case (Cons x xs)
  show ?case
  proof (cases "f x < t")
    case True
    then show ?thesis using Cons by simp
  next
    case False
    then have "\<forall>y\<in>set xs. \<not> f y < t" using Cons.prems by auto
    then have "filter (\<lambda>r. f r < t) xs = []" by (simp add: filter_empty_conv)
    then show ?thesis using False by simp
  qed
qed

lemma get_preys_of_member:
  assumes srt: "sorted (map (\<lambda>r. Cell.mass (heap s r)) (cells s))"
    and mem: "c \<in> set (cells s)" and le: "m \<le> Cell.mass (heap s c) + 1024"
  shows "get_preys s m = Inr (filter (\<lambda>r. Cell.mass (heap s r) < m - 1024) (cells s))"
proof -
  from mem obtain j where j: "j < length (cells s)" "cells s ! j = c"
    by (auto simp: in_set_conv_nth)
  then have "\<exists>j. 0 \<le> j \<and> j < length (cells s) \<and> \<not> Cell.mass (heap s (cells s ! j)) + 1024 < m"
    using le by (intro exI[of _ j]) auto
  from get_preys_scan_takeWhile[OF this]
  have "get_preys s m = Inr (takeWhile (\<lambda>r. Cell.mass (heap s r) + 1024 < m) (cells s))"
    by (simp add: get_preys_def bind_def slice_to_def slice_bound_def takeWhile_eq_take[symmetric])
  also have "(\<lambda>r. Cell.mass (heap s r) + 1024 < m) = (\<lambda>r. Cell.mass (heap s r) < m - 1024)"
    by (rule ext) auto
  finally show ?thesis using takeWhile_filter_sorted[OF srt] by simp
qed



text \<open>
  Claim C1. On a population sorted by mass that holds a cell of mass 16 and a cell of
  mass 5000, the predators of mass 16 are the cells heavier than \<open>16 + 1024\<close>, that is
  the second cell, and \<^verbatim>\<open>get_predators\<close> returns the empty list: its scan starts at the
  last index, where the guard \<^verbatim>\<open>index + 1 < len(cells)\<close> is false, so the slice taken
  after that index is empty.
\<close>

theorem get_predators_returns_nothing:
  "get_predators (population [((100, 100), 16), ((400, 400), 5000)]) 16 = Inr []
   \<and> filter (\<lambda>r. Cell.mass (heap (population [((100, 100), 16), ((400, 400), 5000)]) r) > 16 + 1024)
        (cells (population [((100, 100), 16), ((400, 400), 5000)])) = [1]"
proof -
  let ?s = "population [((100, 100), 16), ((400, 400), 5000)]"
  have cs: "cells ?s = [0, 1]" by (simp add: cells_population upt_rec)
  then have "cells ?s \<noteq> []" by simp
  then have "get_predators ?s 16 = Inr []" by (rule get_predators_nonempty)
  moreover have "filter (\<lambda>r. Cell.mass (heap ?s r) > 16 + 1024) (cells ?s) = [1]"
    by (simp add: cs heap_population mass_cell_at)
  ultimately show ?thesis by simp
qed

text \<open>
  Claim C2. In a population sorted by mass, for every cell \<open>c\<close> of the population,
  \<^verbatim>\<open>get_preys\<close> of the mass of \<open>c\<close> returns exactly the cells lighter than that mass
  minus 1024 (a prefix of the population); the result shares no cell with the result of
  \<^verbatim>\<open>get_predators\<close>, nor with the cells heavier than that mass plus 1024, and does not
  contain \<open>c\<close>.
\<close>

theorem get_preys_exact:
  assumes "sorted (map (\<lambda>r. Cell.mass (heap s r)) (cells s))" and "c \<in> set (cells s)"
  shows "get_preys s (Cell.mass (heap s c)) =
           Inr (filter (\<lambda>r. Cell.mass (heap s r) < Cell.mass (heap s c) - 1024) (cells s))
       \<and> (\<exists>predators. get_predators s (Cell.mass (heap s c)) = Inr predators
            \<and> set predators \<inter>
                set (filter (\<lambda>r. Cell.mass (heap s r) < Cell.mass (heap s c) - 1024) (cells s)) = {})
       \<and> set (filter (\<lambda>r. Cell.mass (heap s c) + 1024 < Cell.mass (heap s r)) (cells s)) \<inter>
           set (filter (\<lambda>r. Cell.mass (heap s r) < Cell.mass (heap s c) - 1024) (cells s)) = {}
       \<and> c \<notin> set (filter (\<lambda>r. Cell.mass (heap s r) < Cell.mass (heap s c) - 1024) (cells s))"
proof -
  have "get_preys s (Cell.mass (heap s c)) =
          Inr (filter (\<lambda>r. Cell.mass (heap s r) < Cell.mass (heap s c) - 1024) (cells s))"
    using assms by (intro get_preys_of_member) auto
  moreover have "get_predators s (Cell.mass (heap s c)) = Inr []"
    using assms(2) by (intro get_predators_nonempty) auto
  moreover have "set (filter (\<lambda>r. Cell.mass (heap s c) + 1024 < Cell.mass (heap s r)) (cells s)) \<inter>
           set (filter (\<lambda>r. Cell.mass (heap s r) < Cell.mass (heap s c) - 1024) (cells s)) = {}"
    by auto
  ultimately show ?thesis by simp
qed

theorem get_preys_exact_witness:
  "sorted (map (\<lambda>r. Cell.mass (heap (population [((0, 0), 16), ((9, 9), 2000), ((5, 5), 5000)]) r))
      (cells (population [((0, 0), 16), ((9, 9), 2000), ((5, 5), 5000)])))
   \<and> 2 \<in> set (cells (population [((0, 0), 16), ((9, 9), 2000), ((5, 5), 5000)]))
   \<and> get_preys (population [((0, 0), 16), ((9, 9), 2000), ((5, 5), 5000)]) 5000 = Inr [0, 1]"
proof -
  let ?s = "population [((0, 0), 16), ((9, 9), 2000), ((5, 5), 5000)]"
  have cs: "cells ?s = [0, 1, 2]" by (simp add: cells_population upt_rec)
  have m: "Cell.mass (heap ?s 2) = 5000" by (simp add: heap_population mass_cell_at)
  have h1: "sorted (map (\<lambda>r. Cell.mass (heap ?s r)) (cells ?s))"
    by (simp add: cs heap_population mass_cell_at)
  have h2: "2 \<in> set (cells ?s)" by (simp add: cs)
  have "get_preys ?s 5000 = Inr [0, 1]"
    using get_preys_exact[OF h1 h2] unfolding m
    by (simp add: cs heap_population mass_cell_at)
  with h1 h2 show ?thesis by blast
qed

text \<open>
  Claim C8, as stated, fails: with two cells of mass 512 in the population and the query
  mass 4096, both cells are preys, and both reductions raise \<^verbatim>\<open>IndexError\<close>, because the
  scan of \<^verbatim>\<open>get_preys\<close> steps past the last index.
\<close>

theorem reductions_fail_on_nonempty_prey_set:
  "get_nearest_prey (population [((100, 100), 512), ((300, 300), 512)]) 4096 (200, 200) = Inl IndexError
   \<and> get_most_perspective_prey (population [((100, 100), 512), ((300, 300), 512)]) 4096 (200, 200)
       = Inl IndexError
   \<and> filter (\<lambda>r. Cell.mass (heap (population [((100, 100), 512), ((300, 300), 512)]) r) < 4096 - 1024)
        (cells (population [((100, 100), 512), ((300, 300), 512)])) = [0, 1]"
proof -
  let ?s = "population [((100, 100), 512), ((300, 300), 512)]"
  have cs: "cells ?s = [0, 1]" by (simp add: cells_population upt_rec)
  have s2: "get_preys_scan ?s 4096 2 = Inl IndexError"
    by (subst get_preys_scan.simps) (simp add: cs getitem_def in_range_def)
  have s1: "get_preys_scan ?s 4096 1 = Inl IndexError"
    by (subst get_preys_scan.simps)
       (simp add: cs getitem_def in_range_def py_nth_def heap_population mass_cell_at s2)
  have s0: "get_preys_scan ?s 4096 0 = Inl IndexError"
    by (subst get_preys_scan.simps)
       (simp add: cs getitem_def in_range_def py_nth_def heap_population mass_cell_at s1)
  have p: "get_preys ?s 4096 = Inl IndexError" by (simp add: get_preys_def bind_def s0)
  have a: "get_nearest_prey ?s 4096 (200, 200) = Inl IndexError"
    by (simp add: get_nearest_prey_def bind_def p)
  have b: "get_most_perspective_prey ?s 4096 (200, 200) = Inl IndexError"
    by (simp add: get_most_perspective_prey_def get_near_preys_def bind_def p)
  have c: "filter (\<lambda>r. Cell.mass (heap ?s r) < 4096 - 1024) (cells ?s) = [0, 1]"
    by (simp add: cs heap_population mass_cell_at)
  from a b c show ?thesis by simp
qed

lemma min_from_mem: "min_from key b xs \<in> set (b # xs)"
  by (induction xs arbitrary: b) auto

lemma min_from_least: "y \<in> set (b # xs) \<Longrightarrow> key (min_from key b xs) \<le> key y"
proof (induction xs arbitrary: b y)
  case Nil
  then show ?case by simp
next
  case (Cons x xs)
  have le: "key (min_from key (if key x < key b then x else b) xs) \<le> key (if key x < key b then x else b)"
    by (rule Cons.IH) simp
  from Cons.prems consider "y = b" | "y = x" | "y \<in> set xs" by auto
  then show ?case
  proof cases
    case 1 then show ?thesis using le by (auto split: if_splits)
  next
    case 2 then show ?thesis using le by (auto split: if_splits)
  next
    case 3 then show ?thesis using Cons.IH[of y "if key x < key b then x else b"] by simp
  qed
qed

lemma max_from_mem: "max_from key b xs \<in> set (b # xs)"
  by (induction xs arbitrary: b) auto

lemma max_from_greatest: "y \<in> set (b # xs) \<Longrightarrow> key y \<le> key (max_from key b xs)"
proof (induction xs arbitrary: b y)
  case Nil
  then show ?case by simp
next
  case (Cons x xs)
  have le: "key (if key b < key x then x else b) \<le> key (max_from key (if key b < key x then x else b) xs)"
    by (rule Cons.IH) simp
  from Cons.prems consider "y = b" | "y = x" | "y \<in> set xs" by auto
  then show ?case
  proof cases
    case 1 then show ?thesis using le by (auto split: if_splits)
  next
    case 2 then show ?thesis using le by (auto split: if_splits)
  next
    case 3 then show ?thesis using Cons.IH[of y "if key b < key x then x else b"] by simp
  qed
qed

lemma py_min_fails: "(\<exists>e. py_min key xs = Inl e) = (xs = [])"
  by (cases xs) (simp_all add: py_min_def)

lemma py_min_returns:
  "py_min key xs = Inr x \<Longrightarrow> x \<in> set xs \<and> (\<forall>y\<in>set xs. key x \<le> key y)"
  using min_from_mem[of key] min_from_least[of _ _ _ key]
  by (cases xs) (auto simp: py_min_def)

lemma py_max_fails: "(\<exists>e. py_max key xs = Inl e) = (xs = [])"
  by (cases xs) (simp_all add: py_max_def)

lemma py_max_returns:
  "py_max key xs = Inr x \<Longrightarrow> x \<in> set xs \<and> (\<forall>y\<in>set xs. key y \<le> key x)"
  using max_from_mem[of key] max_from_greatest[of _ _ _ key]
  by (cases xs) (auto simp: py_max_def)

text \<open>
  Claim C8, amended. For a mass \<open>m\<close> that is not negative, in a population sorted by mass
  that holds a cell at least as heavy as \<open>m - 1024\<close> (so for the mass of every cell of a
  population of cells of positive mass), \<^verbatim>\<open>get_nearest_prey\<close>
  raises exactly when no cell is lighter than \<open>m - 1024\<close> and otherwise returns such a
  cell at least squared distance from the position; \<^verbatim>\<open>get_most_perspective_prey\<close>
  raises exactly when none of these cells is within the squared distance
  \<open>16 * get_radius(m)\<^sup>2\<close> and otherwise returns one of greatest mass among them.
\<close>

theorem reductions_fail_exactly_on_empty:
  assumes "sorted (map (\<lambda>r. Cell.mass (heap s r)) (cells s))"
    and "c \<in> set (cells s)" and "m \<le> Cell.mass (heap s c) + 1024"
    and "0 \<le> m"
    and "preys = filter (\<lambda>r. Cell.mass (heap s r) < m - 1024) (cells s)"
    and "near = filter (\<lambda>x. distance_squared_to pos (position (heap s x)) \<le> (get_radius m)\<^sup>2 * 16) preys"
  shows "((\<exists>e. get_nearest_prey s m pos = Inl e) = (preys = []))
       \<and> (\<forall>x. get_nearest_prey s m pos = Inr x \<longrightarrow>
              x \<in> set preys \<and> (\<forall>y\<in>set preys. distance_squared_to pos (position (heap s x))
                                            \<le> distance_squared_to pos (position (heap s y))))
       \<and> ((\<exists>e. get_most_perspective_prey s m pos = Inl e) = (near = []))
       \<and> (\<forall>x. get_most_perspective_prey s m pos = Inr x \<longrightarrow>
              x \<in> set near \<and> (\<forall>y\<in>set near. Cell.mass (heap s y) \<le> Cell.mass (heap s x)))"
proof -
  have p: "get_preys s m = Inr preys"
    using get_preys_of_member[OF assms(1,2,3)] assms(5) by simp
  have n: "get_near_preys s m pos = Inr near"
    using assms(4) by (simp add: get_near_preys_def bind_def p assms(6))
  have a: "get_nearest_prey s m pos = py_min (\<lambda>x. distance_squared_to pos (position (heap s x))) preys"
    by (simp add: get_nearest_prey_def bind_def p)
  have b: "get_most_perspective_prey s m pos = py_max (\<lambda>x. Cell.mass (heap s x)) near"
    by (simp add: get_most_perspective_prey_def bind_def n)
  show ?thesis
    unfolding a b
  proof (intro conjI allI impI)
    show "(\<exists>e. py_min (\<lambda>x. distance_squared_to pos (position (heap s x))) preys = Inl e) = (preys = [])"
      by (rule py_min_fails)
    show "(\<exists>e. py_max (\<lambda>x. Cell.mass (heap s x)) near = Inl e) = (near = [])"
      by (rule py_max_fails)
  next
    fix x assume "py_min (\<lambda>x. distance_squared_to pos (position (heap s x))) preys = Inr x"
    from py_min_returns[OF this]
    show "x \<in> set preys" and "\<forall>y\<in>set preys. distance_squared_to pos (position (heap s x))
                                            \<le> distance_squared_to pos (position (heap s y))"
      by simp_all
  next
    fix x assume "py_max (\<lambda>x. Cell.mass (heap s x)) near = Inr x"
    from py_max_returns[OF this]
    show "x \<in> set near" and "\<forall>y\<in>set near. Cell.mass (heap s y) \<le> Cell.mass (heap s x)"
      by simp_all
  qed
qed


lemma get_radius_sq: "0 \<le> m \<Longrightarrow> (get_radius m)\<^sup>2 = real_of_int m / pi"
  by (simp add: get_radius_def)

lemma position_cell_at: "position (cell_at p m) = p"
  by (simp add: cell_at_def)

theorem reductions_fail_exactly_on_empty_witness:
  "sorted (map (\<lambda>r. Cell.mass (heap (population [((0, 0), 16), ((9, 9), 2000), ((5, 5), 5000)]) r))
      (cells (population [((0, 0), 16), ((9, 9), 2000), ((5, 5), 5000)])))
   \<and> 2 \<in> set (cells (population [((0, 0), 16), ((9, 9), 2000), ((5, 5), 5000)]))
   \<and> 5000 \<le> Cell.mass (heap (population [((0, 0), 16), ((9, 9), 2000), ((5, 5), 5000)]) 2) + 1024
   \<and> (0::int) \<le> 5000
   \<and> get_nearest_prey (population [((0, 0), 16), ((9, 9), 2000), ((5, 5), 5000)]) 5000 (5, 5) = Inr 1
   \<and> get_most_perspective_prey (population [((0, 0), 16), ((9, 9), 2000), ((5, 5), 5000)]) 5000 (5, 5)
       = Inr 1"
proof -
  let ?s = "population [((0, 0), 16), ((9, 9), 2000), ((5, 5), 5000)]"
  let ?d = "\<lambda>x. distance_squared_to (5, 5) (position (heap ?s x))"
  have cs: "cells ?s = [0, 1, 2]" by (simp add: cells_population upt_rec)
  have h1: "sorted (map (\<lambda>r. Cell.mass (heap ?s r)) (cells ?s))"
    by (simp add: cs heap_population mass_cell_at)
  have h2: "2 \<in> set (cells ?s)" by (simp add: cs)
  have h3: "5000 \<le> Cell.mass (heap ?s 2) + 1024" by (simp add: heap_population mass_cell_at)
  have h0: "(0::int) \<le> 5000" by simp
  have h4: "[0, 1] = filter (\<lambda>r. Cell.mass (heap ?s r) < 5000 - 1024) (cells ?s)"
    by (simp add: cs heap_population mass_cell_at)
  have d0: "?d 0 = 50" and d1: "?d 1 = 32"
    by (simp_all add: heap_population position_cell_at distance_squared_to_def)
  have big: "(20000::real) < (get_radius 5000)\<^sup>2 * 16"
  proof -
    have "(20000::real) * pi < 20000 * 4" using pi_less_4 by simp
    then have "(20000::real) < 80000 / pi" by (simp add: pos_less_divide_eq)
    then show ?thesis by (simp add: get_radius_sq)
  qed
  have "?d 0 \<le> (get_radius 5000)\<^sup>2 * 16" and "?d 1 \<le> (get_radius 5000)\<^sup>2 * 16"
    using big unfolding d0 d1 by linarith+
  then have h5: "[0, 1] = filter (\<lambda>x. ?d x \<le> (get_radius 5000)\<^sup>2 * 16) [0, 1]"
    by simp
  note t = reductions_fail_exactly_on_empty[OF h1 h2 h3 h0 h4 h5]
  have "\<not> (\<exists>e. get_nearest_prey ?s 5000 (5, 5) = Inl e)" using t by simp
  then obtain x where x: "get_nearest_prey ?s 5000 (5, 5) = Inr x"
    by (cases "get_nearest_prey ?s 5000 (5, 5)") auto
  with t have "x \<in> set [0, 1]" and "\<forall>y\<in>set [0, 1]. ?d x \<le> ?d y" by blast+
  then have "x = 1" using d0 d1 by auto
  with x have a: "get_nearest_prey ?s 5000 (5, 5) = Inr 1" by simp
  have "\<not> (\<exists>e. get_most_perspective_prey ?s 5000 (5, 5) = Inl e)" using t by simp
  then obtain z where z: "get_most_perspective_prey ?s 5000 (5, 5) = Inr z"
    by (cases "get_most_perspective_prey ?s 5000 (5, 5)") auto
  with t have "z \<in> set [0, 1]" and "\<forall>y\<in>set [0, 1]. Cell.mass (heap ?s y) \<le> Cell.mass (heap ?s z)"
    by blast+
  then have "z = 1" by (auto simp: heap_population mass_cell_at)
  with z have b: "get_most_perspective_prey ?s 5000 (5, 5) = Inr 1" by simp
  from h1 h2 h3 h0 a b show ?thesis by blast
qed

text \<open>
  For a negative query mass with at least one prey the comparison with the complex bound
  raises, so \<^verbatim>\<open>get_most_perspective_prey\<close> fails although preys exist.
\<close>

lemma get_most_perspective_prey_negative:
  "m < 0 \<Longrightarrow> get_preys s m = Inr ps \<Longrightarrow> ps \<noteq> [] \<Longrightarrow>
     get_most_perspective_prey s m pos = Inl TypeError"
  by (simp add: get_most_perspective_prey_def get_near_preys_def bind_def)

subsection \<open>Derived values of a cell\<close>

lemma pi_ge_3: "3 \<le> pi"
proof -
  have "sin (pi / 6) \<le> pi / 6" by (rule sin_x_le_x) simp
  then show ?thesis by (simp add: sin_30)
qed

lemma py_round_bounds: "\<lfloor>x\<rfloor> \<le> py_round x \<and> py_round x \<le> \<lfloor>x\<rfloor> + 1"
  by (simp add: py_round_def)

lemma get_speed_pos: "0 < m \<Longrightarrow> get_speed m = Inr (1024 / sqrt (real_of_int m))"
  by (simp add: get_speed_def)

lemma Cell_init_pos:
  "0 < m \<Longrightarrow> Cell_init pos m s =
     Inr (next_ref s, \<lparr>heap = (heap s)(next_ref s := cell_at pos m),
                       cells = cells s @ [next_ref s], next_ref = next_ref s + 1\<rparr>)"
  by (simp add: Cell_init_def bind_def get_speed_pos cell_at_def add_object_def)

lemma point_count_cell_at: "point_count (cell_at pos m) = get_point_count (real_of_int m)"
  by (simp add: cell_at_def)

lemma sqrt_1024: "sqrt 1024 = 32" by (rule real_sqrt_unique) simp_all

lemma point_count_of_positive_mass: "0 < m \<Longrightarrow> 8 \<le> get_point_count (real_of_int m)"
proof -
  assume "0 < m"
  then have "(8::real) \<le> 2 * pi * real_of_int m / 10 + 8" by simp
  then have "8 \<le> \<lfloor>2 * pi * real_of_int m / 10 + 8\<rfloor>" by (simp add: le_floor_iff)
  then show ?thesis
    unfolding get_point_count_def using py_round_bounds[of "2 * pi * real_of_int m / 10 + 8"]
    by linarith
qed

lemma sin_sum_11:
  "(\<Sum>m<11. sin_coeff m * x ^ m) = x - x^3 / 6 + x^5 / 120 - x^7 / 5040 + x^9 / 362880"
  for x :: real
  by (simp add: eval_nat_numeral sin_coeff_Suc cos_coeff_Suc)

lemma sin_sum_13:
  "(\<Sum>m<13. sin_coeff m * x ^ m)
     = x - x^3 / 6 + x^5 / 120 - x^7 / 5040 + x^9 / 362880 - x^11 / 39916800"
  for x :: real
  by (simp add: eval_nat_numeral sin_coeff_Suc cos_coeff_Suc)


lemma sin_3142_negative: "sin (1571 / 500 :: real) < 0"
proof -
  have "\<bar>sin (1571 / 500 :: real) - (\<Sum>m<13. sin_coeff m * (1571 / 500) ^ m)\<bar>
          \<le> inverse (fact 13) * \<bar>1571 / 500\<bar> ^ 13"
    by (rule Maclaurin_sin_bound)
  moreover have "(\<Sum>m<13. sin_coeff m * (1571 / 500 :: real) ^ m) + inverse (fact 13) * \<bar>1571 / 500\<bar> ^ 13 < 0"
    unfolding sin_sum_13 by (simp add: fact_numeral power_divide)
  ultimately show ?thesis by linarith
qed

lemma sin_3138_positive: "0 < sin (1569 / 500 :: real)"
proof -
  have "\<bar>sin (1569 / 500 :: real) - (\<Sum>m<11. sin_coeff m * (1569 / 500) ^ m)\<bar>
          \<le> inverse (fact 11) * \<bar>1569 / 500\<bar> ^ 11"
    by (rule Maclaurin_sin_bound)
  moreover have "0 < (\<Sum>m<11. sin_coeff m * (1569 / 500 :: real) ^ m) - inverse (fact 11) * \<bar>1569 / 500\<bar> ^ 11"
    unfolding sin_sum_11 by (simp add: fact_numeral power_divide)
  ultimately show ?thesis by linarith
qed

lemma pi_bounds: "1569 / 500 < pi \<and> pi < 1571 / 500"
proof
  show "1569 / 500 < pi"
  proof (rule ccontr)
    assume "\<not> 1569 / 500 < pi"
    then have "pi \<le> 1569 / 500" by simp
    moreover have "(1569 / 500 :: real) < 2 * pi" using pi_ge_3 by simp
    ultimately have "sin (1569 / 500 :: real) \<le> 0" by (rule sin_le_zero)
    then show False using sin_3138_positive by simp
  qed
  show "pi < 1571 / 500"
  proof (rule ccontr)
    assume "\<not> pi < 1571 / 500"
    then have "(1571 / 500 :: real) \<le> pi" by simp
    then have "0 \<le> sin (1571 / 500 :: real)" by (intro sin_ge_zero) simp_all
    then show False using sin_3142_negative by simp
  qed
qed

lemma py_round_nearest:
  assumes "real_of_int n - 1 / 2 < x" and "x < real_of_int n + 1 / 2"
  shows "py_round x = n"
proof -
  have "\<lfloor>x\<rfloor> = n - 1 \<or> \<lfloor>x\<rfloor> = n" using assms by linarith
  then show ?thesis
  proof
    assume f: "\<lfloor>x\<rfloor> = n - 1"
    then have "1 / 2 < x - of_int \<lfloor>x\<rfloor>" using assms by simp
    then show ?thesis unfolding py_round_def f by simp
  next
    assume f: "\<lfloor>x\<rfloor> = n"
    then have "x - of_int \<lfloor>x\<rfloor> < 1 / 2" using assms by simp
    then show ?thesis unfolding py_round_def f by simp
  qed
qed

lemma count_of_mass_1024_exact: "get_point_count 1024 = 651"
proof -
  have "real_of_int 651 - 1 / 2 < 2 * pi * 1024 / 10 + 8"
    and "2 * pi * 1024 / 10 + 8 < real_of_int 651 + 1 / 2"
    using pi_bounds by simp_all
  then show ?thesis unfolding get_point_count_def by (rule py_round_nearest)
qed

lemma count_of_radius_1024_exact: "get_point_count (get_radius 1024) = 19"
proof -
  have "sqrt (1024 / pi) * sqrt pi = sqrt 1024" by (simp flip: real_sqrt_mult)
  then have r: "get_radius 1024 * sqrt pi = 32" by (simp add: get_radius_def sqrt_1024)
  have "pi * get_radius 1024 = sqrt pi * (get_radius 1024 * sqrt pi)"
    by (simp add: mult.assoc[symmetric] mult.commute)
  then have e: "pi * get_radius 1024 = 32 * sqrt pi" by (simp add: r)
  have "(177 / 100)\<^sup>2 < pi" using pi_bounds by (simp add: power2_eq_square)
  then have lo: "177 / 100 < sqrt pi" by (rule real_less_rsqrt)
  have "pi < (178 / 100)\<^sup>2" using pi_bounds by (simp add: power2_eq_square)
  then have hi: "sqrt pi < 178 / 100" by (intro real_less_lsqrt) simp_all
  have v: "2 * pi * get_radius 1024 / 10 + 8 = 32 * sqrt pi / 5 + 8" using e by simp
  have "real_of_int 19 - 1 / 2 < 2 * pi * get_radius 1024 / 10 + 8"
    and "2 * pi * get_radius 1024 / 10 + 8 < real_of_int 19 + 1 / 2"
    unfolding v using lo hi by simp_all
  then show ?thesis unfolding get_point_count_def by (rule py_round_nearest)
qed


lemma change_mass_point_count:
  assumes "0 < Cell.mass (heap s c) + change" and "points (heap s c) \<noteq> []"
  shows "\<exists>s'. change_mass c change s = Inr s'
           \<and> Cell.mass (heap s' c) = Cell.mass (heap s c) + change
           \<and> point_count (heap s' c) = get_point_count (real_of_int (Cell.mass (heap s c) + change))"
proof -
  define n where "n = get_point_count (real_of_int (Cell.mass (heap s c) + change))"
  obtain ps where "grow_points (points (heap s c)) n = Inr ps"
    using assms(2) by (cases "n - int (length (points (heap s c))) \<le> 0") (simp_all add: grow_points_def)
  then show ?thesis
    using assms(1) unfolding n_def
    by (simp add: change_mass_def update_values_def Let_def bind_def get_speed_pos del: of_int_add)
qed

text \<open>
  Claim C7. A cell constructed with mass 1024 has the point count 651, and so has a cell
  whose mass changes from 512 to 1024: \<open>round(2\<pi> * 1024 / 10 + 8) = 651\<close> is computed
  from the mass. The count computed from the radius, \<open>round(2\<pi> * sqrt(1024 / \<pi>) / 10 + 8)\<close>,
  is 19.
\<close>

theorem point_count_from_mass:
  "Cell_init (360, 360) 1024 (population []) =
     Inr (0, \<lparr>heap = (heap (population []))(0 := cell_at (360, 360) 1024), cells = [0], next_ref = 1\<rparr>)
   \<and> point_count (cell_at (360, 360) 1024) = 651
   \<and> (\<exists>s'. change_mass 0 512 (population [((360, 360), 512)]) = Inr s'
          \<and> Cell.mass (heap s' 0) = 1024 \<and> point_count (heap s' 0) = 651)
   \<and> py_round (2 * pi * get_radius 1024 / 10 + 8) = 19"
proof -
  have a: "Cell_init (360, 360) 1024 (population []) =
     Inr (0, \<lparr>heap = (heap (population []))(0 := cell_at (360, 360) 1024), cells = [0], next_ref = 1\<rparr>)"
    by (simp add: Cell_init_pos population_def)
  have b: "point_count (cell_at (360, 360) 1024) = 651"
    by (simp add: point_count_cell_at count_of_mass_1024_exact)
  let ?s = "population [((360, 360), 512)]"
  have h: "heap ?s 0 = cell_at (360, 360) 512" by (simp add: heap_population)
  have "8 \<le> get_point_count (real_of_int 512)" by (rule point_count_of_positive_mass) simp
  then have "points (heap ?s 0) \<noteq> []" unfolding h by (auto simp: cell_at_def)
  moreover have "0 < Cell.mass (heap ?s 0) + 512" by (simp add: h mass_cell_at)
  ultimately obtain s' where "change_mass 0 512 ?s = Inr s'"
    "Cell.mass (heap s' 0) = Cell.mass (heap ?s 0) + 512"
    "point_count (heap s' 0) = get_point_count (real_of_int (Cell.mass (heap ?s 0) + 512))"
    using change_mass_point_count[of ?s 0 512] by blast
  then have c: "\<exists>s'. change_mass 0 512 ?s = Inr s'
          \<and> Cell.mass (heap s' 0) = 1024 \<and> point_count (heap s' 0) = 651"
    using count_of_mass_1024_exact by (auto simp: h mass_cell_at)
  have d: "py_round (2 * pi * get_radius 1024 / 10 + 8) = 19"
    using count_of_radius_1024_exact by (simp add: get_point_count_def)
  from a b c d show ?thesis by blast
qed

subsection \<open>Pushing the cells of an entity apart\<close>

lemma magnitude_34: "magnitude (3 * a, 4 * a) = 5 * \<bar>a\<bar>"
proof -
  have "(3 * a) * (3 * a) + (4 * a) * (4 * a) = (5 * a)\<^sup>2"
    by (simp add: power2_eq_square)
  then have "magnitude (3 * a, 4 * a) = sqrt ((5 * a)\<^sup>2)"
    by (simp only: magnitude_def fst_conv snd_conv)
  also have "\<dots> = \<bar>5 * a\<bar>" by (rule real_sqrt_abs)
  finally show ?thesis by (simp add: abs_mult)
qed

lemma clamp_34:
  assumes "0 \<le> L" and "L < 5 * \<bar>d\<bar>"
  shows "clamp_magnitude (3 * d, 4 * d) L = Inr (3 * (sgn d * L / 5), 4 * (sgn d * L / 5))"
proof -
  have d: "d \<noteq> 0" using assms by auto
  have e: "d * (L / (5 * \<bar>d\<bar>)) = sgn d * L / 5"
    using d by (simp add: sgn_real_def field_simps)
  have "3 * d * (L / (5 * \<bar>d\<bar>)) = 3 * (d * (L / (5 * \<bar>d\<bar>)))"
    and "4 * d * (L / (5 * \<bar>d\<bar>)) = 4 * (d * (L / (5 * \<bar>d\<bar>)))" by simp_all
  then have "vscale (3 * d, 4 * d) (L / (5 * \<bar>d\<bar>)) = (3 * (sgn d * L / 5), 4 * (sgn d * L / 5))"
    unfolding e by (simp only: vscale_def fst_conv snd_conv)
  moreover have "\<not> L < 0" and "magnitude (3 * d, 4 * d) > L"
    using assms by (simp_all add: magnitude_34)
  ultimately show ?thesis by (simp only: clamp_magnitude_def magnitude_34 if_True if_False)
qed

lemma move_cell_34:
  assumes pos: "position (heap s c) = (3 * x, 4 * x)"
    and L: "speed (heap s c) * dt = L" and "0 \<le> L" and "L < 5 * \<bar>y - x\<bar>"
  shows "move_cell dt c (3 * y, 4 * y) s =
           Inr (s\<lparr>heap := (heap s)(c := (heap s c)
                  \<lparr>position := (3 * (x + sgn (y - x) * L / 5), 4 * (x + sgn (y - x) * L / 5)),
                   points := map (\<lambda>point. vadd point
                       (3 * (sgn (y - x) * L / 5), 4 * (sgn (y - x) * L / 5))) (points (heap s c))\<rparr>)\<rparr>)"
proof -
  have ne: "(3 * x, 4 * x) \<noteq> (3 * y, 4 * y)" using assms by auto
  have v: "vsub (3 * y, 4 * y) (3 * x, 4 * x) = (3 * (y - x), 4 * (y - x))"
    by (simp add: vsub_def algebra_simps)
  have a: "vadd (3 * x, 4 * x) (3 * (sgn (y - x) * L / 5), 4 * (sgn (y - x) * L / 5))
         = (3 * (x + sgn (y - x) * L / 5), 4 * (x + sgn (y - x) * L / 5))"
    by (simp add: vadd_def algebra_simps)
  show ?thesis
    unfolding move_cell_def pos L v clamp_34[OF assms(3,4)] bind_def
    using ne by (simp only: if_False sum.case a)
qed


lemma get_radius_lower: "0 < m \<Longrightarrow> sqrt (real_of_int m / 4) < get_radius m"
proof -
  assume m: "0 < m"
  have "real_of_int m / 4 < real_of_int m / pi"
    using m pi_less_4 pi_gt_zero by (intro divide_strict_left_mono) simp_all
  then show ?thesis unfolding get_radius_def by (simp only: real_sqrt_less_iff)
qed

lemma get_radius_upper: "0 < m \<Longrightarrow> get_radius m \<le> sqrt (real_of_int m / 2)"
proof -
  assume m: "0 < m"
  have "real_of_int m / pi \<le> real_of_int m / 2"
    using m pi_ge_two pi_gt_zero by (intro divide_left_mono) simp_all
  then show ?thesis unfolding get_radius_def by (simp only: real_sqrt_le_iff)
qed

lemma sqrt_4096: "sqrt 4096 = 64" by (rule real_sqrt_unique) simp_all
lemma sqrt_256: "sqrt 256 = 16" by (rule real_sqrt_unique) simp_all

lemma radius_4096: "32 < get_radius 4096 \<and> get_radius 4096 < 46"
proof -
  have "sqrt (real_of_int 4096 / 4) < get_radius 4096" by (rule get_radius_lower) simp
  then have a: "32 < get_radius 4096" by (simp add: sqrt_1024)
  have "get_radius 4096 \<le> sqrt (real_of_int 4096 / 2)" by (rule get_radius_upper) simp
  moreover have "sqrt (real_of_int 4096 / 2) < 46" by (rule real_less_lsqrt) simp_all
  ultimately show ?thesis using a by simp
qed

lemma radius_9216: "48 < get_radius 9216 \<and> get_radius 9216 < 68"
proof -
  have "sqrt 2304 = 48" by (rule real_sqrt_unique) simp_all
  moreover have "sqrt (real_of_int 9216 / 4) < get_radius 9216" by (rule get_radius_lower) simp
  ultimately have a: "48 < get_radius 9216" by simp
  have "get_radius 9216 \<le> sqrt (real_of_int 9216 / 2)" by (rule get_radius_upper) simp
  moreover have "sqrt (real_of_int 9216 / 2) < 68" by (rule real_less_lsqrt) simp_all
  ultimately show ?thesis using a by simp
qed

lemma sqrt_9216: "sqrt 9216 = 96" by (rule real_sqrt_unique) simp_all

lemma radius_1024: "16 < get_radius 1024 \<and> get_radius 1024 < 23"
proof -
  have "sqrt (real_of_int 1024 / 4) < get_radius 1024" by (rule get_radius_lower) simp
  then have a: "16 < get_radius 1024" by (simp add: sqrt_256)
  have "get_radius 1024 \<le> sqrt (real_of_int 1024 / 2)" by (rule get_radius_upper) simp
  moreover have "sqrt (real_of_int 1024 / 2) < 23" by (rule real_less_lsqrt) simp_all
  ultimately show ?thesis using a by simp
qed

lemma radius_cell_at: "radius (cell_at p m) = get_radius m" by (simp add: cell_at_def)
lemma speed_cell_at: "speed (cell_at p m) = 1024 / sqrt (real_of_int m)" by (simp add: cell_at_def)

lemma scale_to_length_34:
  "a \<noteq> 0 \<Longrightarrow> scale_to_length (3 * a, 4 * a) len = Inr (3 * (a * len / (5 * \<bar>a\<bar>)), 4 * (a * len / (5 * \<bar>a\<bar>)))"
  by (simp add: scale_to_length_def magnitude_34 vscale_def)

lemma push_pair_on_line:
  assumes c: "c1 \<noteq> c2"
    and p1: "position (heap s c1) = (3 * x1, 4 * x1)"
    and p2: "position (heap s c2) = (3 * x2, 4 * x2)"
    and d: "d = x2 - x1" "d \<noteq> 0"
    and R: "radius (heap s c1) + radius (heap s c2) = R" "5 * \<bar>d\<bar> < R"
    and M: "Cell.mass (heap s c1) + Cell.mass (heap s c2) = M" "M \<noteq> 0"
    and y: "y = d * (R - 5 * \<bar>d\<bar>) / (5 * \<bar>d\<bar>)
                  * (real_of_int (Cell.mass (heap s c2)) / real_of_int M)"
    and L1: "speed (heap s c1) * dt = L1" "0 \<le> L1" "L1 < 5 * \<bar>- y - x1\<bar>"
    and L2: "speed (heap s c2) * dt = L2" "0 \<le> L2" "L2 < 5 * \<bar>y - x2\<bar>"
  shows "push_pair dt c1 c2 s =
     Inr (s\<lparr>heap := (heap s)
       (c1 := (heap s c1)
          \<lparr>position := (3 * (x1 + sgn (- y - x1) * L1 / 5), 4 * (x1 + sgn (- y - x1) * L1 / 5)),
           points := map (\<lambda>point. vadd point
              (3 * (sgn (- y - x1) * L1 / 5), 4 * (sgn (- y - x1) * L1 / 5))) (points (heap s c1))\<rparr>,
        c2 := (heap s c2)
          \<lparr>position := (3 * (x2 + sgn (y - x2) * L2 / 5), 4 * (x2 + sgn (y - x2) * L2 / 5)),
           points := map (\<lambda>point. vadd point
              (3 * (sgn (y - x2) * L2 / 5), 4 * (sgn (y - x2) * L2 / 5))) (points (heap s c2))\<rparr>)\<rparr>)"
proof -
  define k where "k = real_of_int (Cell.mass (heap s c2)) / real_of_int M"
  define D :: Vector2 where "D = (3 * (d * (R - 5 * \<bar>d\<bar>) / (5 * \<bar>d\<bar>)), 4 * (d * (R - 5 * \<bar>d\<bar>) / (5 * \<bar>d\<bar>)))"
  define s1 where "s1 = s\<lparr>heap := (heap s)(c1 := (heap s c1)
          \<lparr>position := (3 * (x1 + sgn (- y - x1) * L1 / 5), 4 * (x1 + sgn (- y - x1) * L1 / 5)),
           points := map (\<lambda>point. vadd point
              (3 * (sgn (- y - x1) * L1 / 5), 4 * (sgn (- y - x1) * L1 / 5))) (points (heap s c1))\<rparr>)\<rparr>"
  have dir: "vsub (position (heap s c2)) (position (heap s c1)) = (3 * d, 4 * d)"
    by (simp add: p1 p2 d vsub_def algebra_simps)
  have inter: "intersects (heap s c1) (heap s c2)"
  proof -
    have "(5 * \<bar>d\<bar>)\<^sup>2 < R\<^sup>2" using R(2) by (intro power_strict_mono) simp_all
    moreover have "distance_squared_to (position (heap s c1)) (position (heap s c2)) = (5 * \<bar>d\<bar>)\<^sup>2"
    proof -
      have "distance_squared_to (3 * x1, 4 * x1) (3 * x2, 4 * x2) = (3 * d) * (3 * d) + (4 * d) * (4 * d)"
        by (simp add: distance_squared_to_def d(1) algebra_simps)
      also have "\<dots> = 25 * (d * d)" by simp
      also have "\<dots> = (5 * \<bar>d\<bar>)\<^sup>2" by (simp add: power2_eq_square)
      finally show ?thesis unfolding p1 p2 .
    qed
    ultimately show ?thesis by (simp add: intersects_def R(1))
  qed
  have fst_ne: "fst (3 * d, 4 * d) \<noteq> 0" using d(2) by simp
  have scaled: "scale_to_length (3 * d, 4 * d) (R - magnitude (3 * d, 4 * d)) = Inr D"
    using scale_to_length_34[OF d(2), of "R - 5 * \<bar>d\<bar>"] by (simp add: D_def magnitude_34)
  have t1: "vscale (vneg D) k = (3 * (- y), 4 * (- y))"
    by (simp add: vscale_def vneg_def D_def y k_def)
  have t2: "vscale D k = (3 * y, 4 * y)"
    by (simp add: vscale_def D_def y k_def)
  have m1: "move_cell dt c1 (3 * (- y), 4 * (- y)) s = Inr s1"
    unfolding s1_def by (rule move_cell_34[OF p1 L1])
  have h2: "heap s1 c2 = heap s c2" using c by (simp add: s1_def)
  have p2': "position (heap s1 c2) = (3 * x2, 4 * x2)" unfolding h2 by (rule p2)
  have L2': "speed (heap s1 c2) * dt = L2" unfolding h2 by (rule L2(1))
  have m2: "move_cell dt c2 (3 * y, 4 * y) s1 =
     Inr (s1\<lparr>heap := (heap s1)(c2 := (heap s1 c2)
          \<lparr>position := (3 * (x2 + sgn (y - x2) * L2 / 5), 4 * (x2 + sgn (y - x2) * L2 / 5)),
           points := map (\<lambda>point. vadd point
              (3 * (sgn (y - x2) * L2 / 5), 4 * (sgn (y - x2) * L2 / 5))) (points (heap s1 c2))\<rparr>)\<rparr>)"
    by (rule move_cell_34[OF p2' L2' L2(2,3)])
  have k2: "real_of_int (Cell.mass (heap s1 c2)) / real_of_int M = k" unfolding h2 k_def ..
  have "push_pair dt c1 c2 s =
      bind (scale_to_length (3 * d, 4 * d) (R - magnitude (3 * d, 4 * d))) (\<lambda>direction.
        bind (move_cell dt c1 (vscale (vneg direction) k) s)
          (\<lambda>s1. move_cell dt c2 (vscale direction (real_of_int (Cell.mass (heap s1 c2)) / real_of_int M)) s1))"
    unfolding push_pair_def Let_def dir M(1) R(1) k_def
    using inter fst_ne M(2) by (simp only: if_True if_False vector_equals_number_def simp_thms)
  also have "\<dots> = move_cell dt c2 (vscale D (real_of_int (Cell.mass (heap s1 c2)) / real_of_int M)) s1"
    unfolding scaled bind_def sum.case t1 m1 ..
  also have "\<dots> = move_cell dt c2 (3 * y, 4 * y) s1" unfolding k2 t2 ..
  also note m2
  finally show ?thesis unfolding h2 by (simp add: s1_def)
qed

lemma push_away_pair:
  "push_away dt pair_of_cells s = push_pair dt 0 1 s"
  by (cases "push_pair dt 0 1 s") (simp_all add: push_away_def pair_of_cells_def bind_def)

lemma push_pair_siblings:
  "\<exists>s'. push_pair (1 / 144) 0 1 siblings = Inr s'
      \<and> position (heap s' 0) = (303 - 1 / 15, 404 - 4 / 45)
      \<and> position (heap s' 1) = (300 - 2 / 45, 400 - 8 / 135)"
proof -
  note One_nat_def [simp del]
  let ?s = siblings
  define R where "R = get_radius 4096 + get_radius 9216"
  have Rb: "80 < R" "R < 114" using radius_4096 radius_9216 by (simp_all add: R_def)
  have h0: "heap ?s 0 = cell_at (303, 404) 4096" and h1: "heap ?s 1 = cell_at (300, 400) 9216"
    by (simp_all add: siblings_def heap_population)
  define y where "y = (- 1) * (R - 5 * \<bar>- 1\<bar>) / (5 * \<bar>- 1\<bar>)
                  * (real_of_int (Cell.mass (heap ?s 1)) / real_of_int 13312)"
  have yv: "y = - (R - 5) * 9 / 65" by (simp add: y_def h1 mass_cell_at)
  have yb: "- 16 < y" "y < - 10" using Rb by (simp_all add: yv)
  have "(0::nat) \<noteq> 1" by simp
  moreover have "position (heap ?s 0) = (3 * 101, 4 * 101)" unfolding h0 position_cell_at by simp
  moreover have "position (heap ?s 1) = (3 * 100, 4 * 100)" unfolding h1 position_cell_at by simp
  moreover have "(- 1 :: real) = 100 - 101" "(- 1 :: real) \<noteq> 0" by simp_all
  moreover have "radius (heap ?s 0) + radius (heap ?s 1) = R" by (simp add: h0 h1 radius_cell_at R_def)
  moreover have "5 * \<bar>- 1 :: real\<bar> < R" using Rb by simp
  moreover have "Cell.mass (heap ?s 0) + Cell.mass (heap ?s 1) = 13312" "(13312::int) \<noteq> 0"
    by (simp_all add: h0 h1 mass_cell_at)
  moreover note y_def
  moreover have "speed (heap ?s 0) * (1 / 144) = 1 / 9" by (simp add: h0 speed_cell_at sqrt_4096)
  moreover have "(0::real) \<le> 1 / 9" "(1 / 9 :: real) < 5 * \<bar>- y - 101\<bar>" using yb by simp_all
  moreover have "speed (heap ?s 1) * (1 / 144) = 2 / 27" by (simp add: h1 speed_cell_at sqrt_9216)
  moreover have "(0::real) \<le> 2 / 27" "(2 / 27 :: real) < 5 * \<bar>y - 100\<bar>" using yb by simp_all
  ultimately have r: "push_pair (1 / 144) 0 1 ?s =
     Inr (?s\<lparr>heap := (heap ?s)
       (0 := (heap ?s 0)
          \<lparr>position := (3 * (101 + sgn (- y - 101) * (1 / 9) / 5), 4 * (101 + sgn (- y - 101) * (1 / 9) / 5)),
           points := map (\<lambda>point. vadd point
              (3 * (sgn (- y - 101) * (1 / 9) / 5), 4 * (sgn (- y - 101) * (1 / 9) / 5))) (points (heap ?s 0))\<rparr>,
        1 := (heap ?s 1)
          \<lparr>position := (3 * (100 + sgn (y - 100) * (2 / 27) / 5), 4 * (100 + sgn (y - 100) * (2 / 27) / 5)),
           points := map (\<lambda>point. vadd point
              (3 * (sgn (y - 100) * (2 / 27) / 5), 4 * (sgn (y - 100) * (2 / 27) / 5))) (points (heap ?s 1))\<rparr>)\<rparr>)"
    by (rule push_pair_on_line)
  have sg: "sgn (- y - 101) = - 1" "sgn (y - 100) = - 1" using yb by (simp_all add: sgn_real_def)
  show ?thesis unfolding r sg by simp
qed

lemma push_pair_at_corner: "push_pair (1 / 144) 0 1 at_corner = Inr at_corner_pushed"
proof -
  note One_nat_def [simp del]
  let ?s = at_corner
  define R where "R = get_radius 4096 + get_radius 4096"
  have Rb: "64 < R" "R < 92" using radius_4096 by (simp_all add: R_def)
  have h0: "heap ?s 0 = cell_at (0, 0) 4096" and h1: "heap ?s 1 = cell_at (3, 4) 4096"
    by (simp_all add: at_corner_def heap_population)
  define y where "y = 1 * (R - 5 * \<bar>1\<bar>) / (5 * \<bar>1\<bar>)
                  * (real_of_int (Cell.mass (heap ?s 1)) / real_of_int 8192)"
  have yv: "y = (R - 5) / 10" by (simp add: y_def h1 mass_cell_at)
  have yb: "5 < y" "y < 9" using Rb by (simp_all add: yv)
  have "(0::nat) \<noteq> 1" by simp
  moreover have "position (heap ?s 0) = (3 * 0, 4 * 0)" unfolding h0 position_cell_at by simp
  moreover have "position (heap ?s 1) = (3 * 1, 4 * 1)" unfolding h1 position_cell_at by simp
  moreover have "(1 :: real) = 1 - 0" "(1 :: real) \<noteq> 0" by simp_all
  moreover have "radius (heap ?s 0) + radius (heap ?s 1) = R" by (simp add: h0 h1 radius_cell_at R_def)
  moreover have "5 * \<bar>1 :: real\<bar> < R" using Rb by simp
  moreover have "Cell.mass (heap ?s 0) + Cell.mass (heap ?s 1) = 8192" "(8192::int) \<noteq> 0"
    by (simp_all add: h0 h1 mass_cell_at)
  moreover note y_def
  moreover have "speed (heap ?s 0) * (1 / 144) = 1 / 9" by (simp add: h0 speed_cell_at sqrt_4096)
  moreover have "(0::real) \<le> 1 / 9" "(1 / 9 :: real) < 5 * \<bar>- y - 0\<bar>" using yb by simp_all
  moreover have "speed (heap ?s 1) * (1 / 144) = 1 / 9" by (simp add: h1 speed_cell_at sqrt_4096)
  moreover have "(0::real) \<le> 1 / 9" "(1 / 9 :: real) < 5 * \<bar>y - 1\<bar>" using yb by simp_all
  ultimately have r: "push_pair (1 / 144) 0 1 ?s =
     Inr (?s\<lparr>heap := (heap ?s)
       (0 := (heap ?s 0)
          \<lparr>position := (3 * (0 + sgn (- y - 0) * (1 / 9) / 5), 4 * (0 + sgn (- y - 0) * (1 / 9) / 5)),
           points := map (\<lambda>point. vadd point
              (3 * (sgn (- y - 0) * (1 / 9) / 5), 4 * (sgn (- y - 0) * (1 / 9) / 5))) (points (heap ?s 0))\<rparr>,
        1 := (heap ?s 1)
          \<lparr>position := (3 * (1 + sgn (y - 1) * (1 / 9) / 5), 4 * (1 + sgn (y - 1) * (1 / 9) / 5)),
           points := map (\<lambda>point. vadd point
              (3 * (sgn (y - 1) * (1 / 9) / 5), 4 * (sgn (y - 1) * (1 / 9) / 5))) (points (heap ?s 1))\<rparr>)\<rparr>)"
    by (rule push_pair_on_line)
  have sg: "sgn (- y - 0) = - 1" "sgn (y - 1) = 1" using yb by (simp_all add: sgn_real_def)
  show ?thesis unfolding r sg at_corner_pushed_def by simp
qed


text \<open>
  Claim C4. Two intersecting cells of one entity, of mass 4096 at \<open>(303, 404)\<close> and of mass
  9216 at \<open>(300, 400)\<close>, penetrate each other by more than 75 units. One pass of
  \<^verbatim>\<open>push_away\<close> at \<open>delta_time = 1/144\<close> moves the lighter cell by \<open>1/9\<close> towards the
  heavier one and the heavier cell by \<open>2/27\<close> away from the lighter one, both towards the
  origin of the window: each displacement is \<open>speed * delta_time\<close> long and points to the
  point \<^verbatim>\<open>move_cell\<close> received as its destination.
\<close>

theorem push_away_moves_towards_a_point:
  "\<exists>s'. push_away (1 / 144) pair_of_cells siblings = Inr s'
      \<and> position (heap siblings 0) = (303, 404) \<and> position (heap siblings 1) = (300, 400)
      \<and> position (heap s' 0) = (303 - 1 / 15, 404 - 4 / 45)
      \<and> position (heap s' 1) = (300 - 2 / 45, 400 - 8 / 135)
      \<and> 75 < radius (heap siblings 0) + radius (heap siblings 1)
               - magnitude (vsub (position (heap siblings 1)) (position (heap siblings 0)))"
proof -
  note One_nat_def [simp del]
  have h0: "heap siblings 0 = cell_at (303, 404) 4096" and h1: "heap siblings 1 = cell_at (300, 400) 9216"
    by (simp_all add: siblings_def heap_population)
  have "vsub (300, 400) (303, 404) = (3 * (- 1), 4 * (- 1))" by (simp add: vsub_def)
  then have "magnitude (vsub (300, 400) (303, 404)) = 5"
    using magnitude_34[of "- 1"] by simp
  then have "75 < radius (heap siblings 0) + radius (heap siblings 1)
               - magnitude (vsub (position (heap siblings 1)) (position (heap siblings 0)))"
    using radius_4096 radius_9216 by (simp add: h0 h1 position_cell_at radius_cell_at)
  moreover have "position (heap siblings 0) = (303, 404)" "position (heap siblings 1) = (300, 400)"
    by (simp_all add: h0 h1 position_cell_at)
  ultimately show ?thesis
    using push_pair_siblings unfolding push_away_pair by blast
qed

text \<open>
  Claim C5. For the same two intersecting cells one pass of \<^verbatim>\<open>push_away\<close> makes the squared
  distance of the centres smaller than before, 25.
\<close>

theorem push_away_shortens_distance:
  "\<exists>s'. push_away (1 / 144) pair_of_cells siblings = Inr s'
      \<and> intersects (heap siblings 0) (heap siblings 1)
      \<and> distance_squared_to (position (heap siblings 0)) (position (heap siblings 1)) = 25
      \<and> distance_squared_to (position (heap s' 0)) (position (heap s' 1)) < 25"
proof -
  note One_nat_def [simp del]
  have h0: "heap siblings 0 = cell_at (303, 404) 4096" and h1: "heap siblings 1 = cell_at (300, 400) 9216"
    by (simp_all add: siblings_def heap_population)
  have d: "distance_squared_to (position (heap siblings 0)) (position (heap siblings 1)) = 25"
    by (simp add: h0 h1 position_cell_at distance_squared_to_def)
  have "(5::real)\<^sup>2 < (get_radius 4096 + get_radius 9216)\<^sup>2"
    using radius_4096 radius_9216 by (intro power_strict_mono) simp_all
  then have i: "intersects (heap siblings 0) (heap siblings 1)"
    unfolding intersects_def d by (simp add: h0 h1 radius_cell_at)
  from push_pair_siblings obtain s' where s': "push_pair (1 / 144) 0 1 siblings = Inr s'"
    "position (heap s' 0) = (303 - 1 / 15, 404 - 4 / 45)"
    "position (heap s' 1) = (300 - 2 / 45, 400 - 8 / 135)" by blast
  have "distance_squared_to (position (heap s' 0)) (position (heap s' 1)) < 25"
    unfolding s'(2,3) by (simp add: distance_squared_to_def)
  with s'(1) i d show ?thesis unfolding push_away_pair by blast
qed

text \<open>
  Claim C9, as stated, fails: a cell in the corner \<open>(0, 0)\<close> of the window that intersects
  a cell of its entity at \<open>(3, 4)\<close> is moved by \<^verbatim>\<open>push_away\<close> to \<open>(-1/15, -4/45)\<close>, outside
  the window; no clamp follows the moves of \<^verbatim>\<open>push_away\<close>.
\<close>

theorem push_away_leaves_window:
  "push_away (1 / 144) pair_of_cells at_corner = Inr at_corner_pushed
   \<and> position (heap at_corner 0) = (0, 0)
   \<and> position (heap at_corner_pushed 0) = (- 1 / 15, - 4 / 45)"
proof -
  have "position (heap at_corner 0) = (0, 0)"
    by (simp add: at_corner_def heap_population position_cell_at)
  moreover have "position (heap at_corner_pushed 0) = (- 1 / 15, - 4 / 45)"
    by (simp add: at_corner_pushed_def)
  moreover have "push_away (1 / 144) pair_of_cells at_corner = Inr at_corner_pushed"
    unfolding push_away_pair by (rule push_pair_at_corner)
  ultimately show ?thesis by blast
qed

subsection \<open>The update of a cell\<close>

lemma moved_only_refl: "moved_only s s"
  by (simp add: moved_only_def)

lemma moved_only_trans: "moved_only s t \<Longrightarrow> moved_only t u \<Longrightarrow> moved_only s u"
  by (simp add: moved_only_def)

lemma magnitude_vsub: "magnitude (vsub b a) = sqrt (distance_squared_to a b)"
  by (simp add: magnitude_def vsub_def distance_squared_to_def)

lemma normalize_ok: "0 < distance_squared_to a b \<Longrightarrow> \<exists>u. normalize (vsub b a) = Inr u"
  by (simp add: normalize_def magnitude_vsub)

lemma outline_destination_ok:
  assumes "point_count cell \<noteq> 0"
  shows "\<exists>d. outline_destination cell n = Inr d"
proof -
  define dest where "dest = clip_to_window
     (vadd (vscale (cos (real n / real_of_int (point_count cell) * pi * 2),
                    sin (real n / real_of_int (point_count cell) * pi * 2)) (radius cell)) (position cell))"
  have e: "outline_destination cell n =
      (if 0 < distance_squared_to (position cell) dest
            \<and> distance_squared_to (position cell) dest \<le> sqr_radius cell / 4
       then bind (normalize (vsub dest (position cell)))
              (\<lambda>u. Inr (vadd (vscale u (radius cell / 2)) (position cell)))
       else Inr dest)"
    unfolding outline_destination_def Let_def dest_def using assms by (simp only: if_False)
  show ?thesis
  proof (cases "0 < distance_squared_to (position cell) dest
            \<and> distance_squared_to (position cell) dest \<le> sqr_radius cell / 4")
    case True
    then obtain u where "normalize (vsub dest (position cell)) = Inr u"
      using normalize_ok by blast
    then show ?thesis unfolding e using True by (simp add: bind_def)
  next
    case False
    then have "outline_destination cell n = Inr dest" unfolding e by (simp only: if_False)
    then show ?thesis by (intro exI)
  qed
qed

lemma move_points_from_ok:
  assumes "point_count cell \<noteq> 0" and "0 \<le> dt"
  shows "\<exists>ps. move_points_from dt cell n pts = Inr ps"
proof (induction pts arbitrary: n)
  case Nil
  then show ?case by simp
next
  case (Cons p pts)
  obtain d where d: "outline_destination cell n = Inr d"
    using outline_destination_ok[OF assms(1)] by blast
  have "\<not> (min (dt * 2) 1 < 0 \<or> 1 < min (dt * 2) 1)" using assms(2) by simp
  then obtain q where q: "lerp p d (min (dt * 2) 1) = Inr q"
    by (simp add: lerp_def)
  obtain qs where qs: "move_points_from dt cell (Suc n) pts = Inr qs"
    using Cons.IH by blast
  show ?case by (simp add: d q qs bind_def)
qed

lemma move_points_ok:
  assumes "point_count (heap s c) \<noteq> 0" and "0 \<le> dt"
  shows "\<exists>ps. move_points dt c s = Inr (s\<lparr>heap := (heap s)(c := (heap s c)\<lparr>points := ps\<rparr>)\<rparr>)"
  using move_points_from_ok[OF assms, of 0 "points (heap s c)"]
  by (auto simp: move_points_def bind_def)

lemma move_cell_ok:
  assumes "0 \<le> speed (heap s c) * dt"
  shows "\<exists>pos pts. move_cell dt c dest s =
           Inr (s\<lparr>heap := (heap s)(c := (heap s c)\<lparr>position := pos, points := pts\<rparr>)\<rparr>)"
proof (cases "position (heap s c) = dest")
  case True
  have "s = s\<lparr>heap := (heap s)(c := (heap s c)\<lparr>position := position (heap s c), points := points (heap s c)\<rparr>)\<rparr>"
    by simp
  moreover have "move_cell dt c dest s = Inr s" using True by (simp add: move_cell_def)
  ultimately have "move_cell dt c dest s =
     Inr (s\<lparr>heap := (heap s)(c := (heap s c)\<lparr>position := position (heap s c), points := points (heap s c)\<rparr>)\<rparr>)"
    by simp
  then show ?thesis by (intro exI)
next
  case False
  have "\<not> speed (heap s c) * dt < 0" using assms by simp
  then obtain v where "clamp_magnitude (vsub dest (position (heap s c))) (speed (heap s c) * dt) = Inr v"
    by (cases "speed (heap s c) * dt < magnitude (vsub dest (position (heap s c)))")
       (simp_all add: clamp_magnitude_def)
  then have "move_cell dt c dest s = Inr (s\<lparr>heap := (heap s)(c := (heap s c)
        \<lparr>position := vadd (position (heap s c)) v,
         points := map (\<lambda>point. vadd point v) (points (heap s c))\<rparr>)\<rparr>)"
    using False by (simp add: move_cell_def bind_def)
  then show ?thesis by (intro exI)
qed

lemma moved_only_move: "moved_only s (s\<lparr>heap := (heap s)(c := (heap s c)\<lparr>position := pos, points := pts\<rparr>)\<rparr>)"
  by (simp add: moved_only_def)

lemma moved_only_points: "moved_only s (s\<lparr>heap := (heap s)(c := (heap s c)\<lparr>points := pts\<rparr>)\<rparr>)"
  by (simp add: moved_only_def)

lemma moved_only_position: "moved_only s (s\<lparr>heap := (heap s)(c := (heap s c)\<lparr>position := pos\<rparr>)\<rparr>)"
  by (simp add: moved_only_def)

lemma clip_in_window:
  "0 \<le> fst (clip_to_window v) \<and> fst (clip_to_window v) \<le> fst WIN_SIZE
   \<and> 0 \<le> snd (clip_to_window v) \<and> snd (clip_to_window v) \<le> snd WIN_SIZE"
  by (simp add: clip_to_window_def WIN_SIZE_def)

lemma Cell_update_ok:
  assumes "0 \<le> dt" and "0 \<le> speed (heap s c)" and "point_count (heap s c) \<noteq> 0"
  shows "\<exists>s1 s'. move_cell dt c dest s = Inr s1 \<and> Cell_update dt c dest s = Inr s'
            \<and> position (heap s' c) = clip_to_window (position (heap s1 c))
            \<and> moved_only s s1 \<and> moved_only s s'"
proof -
  have "0 \<le> speed (heap s c) * dt" using assms by simp
  from move_cell_ok[OF this, of dest] obtain pos pts where
    m: "move_cell dt c dest s = Inr (s\<lparr>heap := (heap s)(c := (heap s c)\<lparr>position := pos, points := pts\<rparr>)\<rparr>)"
    by blast
  define s1 where "s1 = s\<lparr>heap := (heap s)(c := (heap s c)\<lparr>position := pos, points := pts\<rparr>)\<rparr>"
  define s2 where "s2 = s1\<lparr>heap := (heap s1)(c := (heap s1 c)\<lparr>position := clip_to_window (position (heap s1 c))\<rparr>)\<rparr>"
  have a: "moved_only s s1" unfolding s1_def by (rule moved_only_move)
  have b: "moved_only s1 s2" unfolding s2_def by (rule moved_only_position)
  have "point_count (heap s2 c) \<noteq> 0" using assms(3) by (simp add: s2_def s1_def)
  from move_points_ok[OF this assms(1)] obtain ps where
    p: "move_points dt c s2 = Inr (s2\<lparr>heap := (heap s2)(c := (heap s2 c)\<lparr>points := ps\<rparr>)\<rparr>)" by blast
  define s3 where "s3 = s2\<lparr>heap := (heap s2)(c := (heap s2 c)\<lparr>points := ps\<rparr>)\<rparr>"
  have c: "moved_only s2 s3" unfolding s3_def by (rule moved_only_points)
  have u: "Cell_update dt c dest s = Inr s3"
    unfolding Cell_update_def m bind_def by (simp add: s1_def[symmetric] s2_def[symmetric] p s3_def)
  have pos: "position (heap s3 c) = clip_to_window (position (heap s1 c))"
    by (simp add: s3_def s2_def)
  from a b c have "moved_only s s3" by (blast intro: moved_only_trans)
  with m u pos a show ?thesis unfolding s1_def[symmetric] by blast
qed

text \<open>
  Claim C9, amended. \<^verbatim>\<open>Cell.update\<close> of a cell with a non-negative speed, at a non-negative
  \<open>delta_time\<close>, returns, and afterwards the position of the cell lies within
  \<open>[0, 720] \<times> [0, 720]\<close>; a coordinate that the move towards the destination carried
  to a bound of the window or beyond it is exactly at that bound.
\<close>

theorem Cell_update_within_window:
  assumes "0 \<le> delta_time" and "0 \<le> speed (heap s c)" and "point_count (heap s c) \<noteq> 0"
  shows "\<exists>s1 s'. move_cell delta_time c dest s = Inr s1 \<and> Cell_update delta_time c dest s = Inr s'
            \<and> 0 \<le> fst (position (heap s' c)) \<and> fst (position (heap s' c)) \<le> fst WIN_SIZE
            \<and> 0 \<le> snd (position (heap s' c)) \<and> snd (position (heap s' c)) \<le> snd WIN_SIZE
            \<and> (fst WIN_SIZE \<le> fst (position (heap s1 c)) \<longrightarrow> fst (position (heap s' c)) = fst WIN_SIZE)
            \<and> (fst (position (heap s1 c)) \<le> 0 \<longrightarrow> fst (position (heap s' c)) = 0)
            \<and> (snd WIN_SIZE \<le> snd (position (heap s1 c)) \<longrightarrow> snd (position (heap s' c)) = snd WIN_SIZE)
            \<and> (snd (position (heap s1 c)) \<le> 0 \<longrightarrow> snd (position (heap s' c)) = 0)"
proof -
  from Cell_update_ok[OF assms, of dest] obtain s1 s' where
    r: "move_cell delta_time c dest s = Inr s1" "Cell_update delta_time c dest s = Inr s'"
       "position (heap s' c) = clip_to_window (position (heap s1 c))" by blast
  have "0 \<le> fst (position (heap s' c)) \<and> fst (position (heap s' c)) \<le> fst WIN_SIZE
      \<and> 0 \<le> snd (position (heap s' c)) \<and> snd (position (heap s' c)) \<le> snd WIN_SIZE"
    unfolding r(3) by (rule clip_in_window)
  moreover have "fst WIN_SIZE \<le> fst (position (heap s1 c)) \<longrightarrow> fst (position (heap s' c)) = fst WIN_SIZE"
    and "fst (position (heap s1 c)) \<le> 0 \<longrightarrow> fst (position (heap s' c)) = 0"
    and "snd WIN_SIZE \<le> snd (position (heap s1 c)) \<longrightarrow> snd (position (heap s' c)) = snd WIN_SIZE"
    and "snd (position (heap s1 c)) \<le> 0 \<longrightarrow> snd (position (heap s' c)) = 0"
    unfolding r(3) by (simp_all add: clip_to_window_def WIN_SIZE_def)
  ultimately show ?thesis using r(1,2) by blast
qed


lemma magnitude_horizontal: "magnitude (a, 0) = \<bar>a\<bar>"
  unfolding magnitude_def fst_conv snd_conv by simp

theorem Cell_update_within_window_witness:
  "(0::real) \<le> 1 / 144 \<and> 0 \<le> speed (heap near_border 0)
   \<and> position (heap near_border 0) = (14399 / 20, 100)
   \<and> (\<exists>s'. Cell_update (1 / 144) 0 (800, 100) near_border = Inr s'
          \<and> fst (position (heap s' 0)) = 720)"
proof -
  let ?s = near_border
  have h: "heap ?s 0 = cell_at (14399 / 20, 100) 4096"
    by (simp add: near_border_def heap_population)
  have h1: "(0::real) \<le> 1 / 144" by simp
  have sp: "speed (heap ?s 0) = 16" by (simp add: h speed_cell_at sqrt_4096)
  then have h2: "0 \<le> speed (heap ?s 0)" by simp
  have "8 \<le> point_count (heap ?s 0)"
    using point_count_of_positive_mass[of 4096] by (simp add: h point_count_cell_at)
  then have h3: "point_count (heap ?s 0) \<noteq> 0" by simp
  have p: "position (heap ?s 0) = (14399 / 20, 100)" by (simp add: h position_cell_at)
  have v: "vsub (800, 100) (14399 / 20, 100) = (1601 / 20, 0)" by (simp add: vsub_def)
  have mg: "magnitude (1601 / 20, 0) = 1601 / 20"
    using magnitude_horizontal[of "1601 / 20"] by simp
  have cl: "clamp_magnitude (1601 / 20, 0) (16 * (1 / 144)) = Inr (1 / 9, 0)"
    by (simp add: clamp_magnitude_def mg vscale_def)
  have mv: "move_cell (1 / 144) 0 (800, 100) ?s =
      Inr (?s\<lparr>heap := (heap ?s)(0 := (heap ?s 0)
             \<lparr>position := vadd (14399 / 20, 100) (1 / 9, 0),
              points := map (\<lambda>point. vadd point (1 / 9, 0)) (points (heap ?s 0))\<rparr>)\<rparr>)"
    unfolding move_cell_def p sp v cl bind_def by simp
  from Cell_update_within_window[OF h1 h2 h3, of "(800, 100)"] obtain s1 s' where
    r: "move_cell (1 / 144) 0 (800, 100) ?s = Inr s1"
       "Cell_update (1 / 144) 0 (800, 100) ?s = Inr s'"
       "fst WIN_SIZE \<le> fst (position (heap s1 0)) \<longrightarrow> fst (position (heap s' 0)) = fst WIN_SIZE"
    by blast
  from r(1) mv have "fst (position (heap s1 0)) = 14399 / 20 + 1 / 9" by (auto simp: vadd_def)
  then have "fst (position (heap s' 0)) = 720" using r(3) by (simp add: WIN_SIZE_def)
  with r(2) h1 h2 p show ?thesis by blast
qed

subsection \<open>The order of the population\<close>

lemma move_cell_moved_only: "move_cell dt c dest s = Inr s' \<Longrightarrow> moved_only s s'"
  by (auto simp: move_cell_def bind_def moved_only_def split: if_splits sum.splits)

lemma move_points_moved_only: "move_points dt c s = Inr s' \<Longrightarrow> moved_only s s'"
  by (auto simp: move_points_def bind_def moved_only_def split: sum.splits)

lemma Cell_update_moved_only:
  assumes "Cell_update dt c dest s = Inr s'"
  shows "moved_only s s'"
proof -
  from assms obtain s1 where m: "move_cell dt c dest s = Inr s1"
    and p: "move_points dt c (s1\<lparr>heap := (heap s1)(c := (heap s1 c)
                \<lparr>position := clip_to_window (position (heap s1 c))\<rparr>)\<rparr>) = Inr s'"
    by (auto simp: Cell_update_def bind_def split: sum.splits)
  from move_cell_moved_only[OF m] moved_only_position move_points_moved_only[OF p]
  show ?thesis by (blast intro: moved_only_trans)
qed

lemma update_cells_moved_only: "update_cells dt dest cs s = Inr s' \<Longrightarrow> moved_only s s'"
proof (induction cs arbitrary: s)
  case Nil
  then show ?case by (simp add: moved_only_refl)
next
  case (Cons c cs)
  from Cons.prems obtain s1 where a: "Cell_update dt c dest s = Inr s1"
    and b: "update_cells dt dest cs s1 = Inr s'"
    by (auto simp: bind_def split: sum.splits)
  from Cell_update_moved_only[OF a] Cons.IH[OF b] show ?case by (rule moved_only_trans)
qed

lemma push_pair_moved_only:
  assumes "push_pair dt c1 c2 s = Inr s'"
  shows "moved_only s s'"
proof (cases "intersects (heap s c1) (heap s c2)
              \<and> fst (vsub (position (heap s c2)) (position (heap s c1))) \<noteq> 0")
  case False
  then have "s' = s" using assms
    by (auto simp: push_pair_def Let_def vector_equals_number_def split: if_splits)
  then show ?thesis by (simp add: moved_only_refl)
next
  case True
  with assms obtain d sa where
    "move_cell dt c1 (vscale (vneg d) (real_of_int (Cell.mass (heap s c2))
        / real_of_int (Cell.mass (heap s c1) + Cell.mass (heap s c2)))) s = Inr sa"
    "move_cell dt c2 (vscale d (real_of_int (Cell.mass (heap sa c2))
        / real_of_int (Cell.mass (heap s c1) + Cell.mass (heap s c2)))) sa = Inr s'"
    by (auto simp: push_pair_def Let_def vector_equals_number_def bind_def
             split: if_splits sum.splits)
  then show ?thesis using move_cell_moved_only by (blast intro: moved_only_trans)
qed

lemma push_inner_moved_only: "push_inner dt c1 cs s = Inr s' \<Longrightarrow> moved_only s s'"
proof (induction cs arbitrary: s)
  case Nil
  then show ?case by (simp add: moved_only_refl)
next
  case (Cons c cs)
  from Cons.prems obtain s1 where a: "push_pair dt c1 c s = Inr s1"
    and b: "push_inner dt c1 cs s1 = Inr s'"
    by (auto simp: bind_def split: sum.splits)
  from push_pair_moved_only[OF a] Cons.IH[OF b] show ?case by (rule moved_only_trans)
qed

lemma push_outer_moved_only: "push_outer dt cs s = Inr s' \<Longrightarrow> moved_only s s'"
proof (induction cs arbitrary: s)
  case Nil
  then show ?case by (simp add: moved_only_refl)
next
  case (Cons c cs)
  from Cons.prems obtain s1 where a: "push_inner dt c cs s = Inr s1"
    and b: "push_outer dt cs s1 = Inr s'"
    by (auto simp: bind_def split: sum.splits)
  from push_inner_moved_only[OF a] Cons.IH[OF b] show ?case by (rule moved_only_trans)
qed

lemma push_away_moved_only: "push_away dt e s = Inr s' \<Longrightarrow> moved_only s s'"
  using push_outer_moved_only
  by (auto simp: push_away_def moved_only_refl split: if_splits)

lemma moved_only_sorted: "moved_only s s' \<Longrightarrow> sorted_by_mass s' = sorted_by_mass s"
  by (simp add: moved_only_def sorted_by_mass_def)

lemma update_values_sorted: "update_values c s = Inr s' \<Longrightarrow> sorted_by_mass s'"
  by (auto simp: update_values_def Let_def bind_def sorted_by_mass_def Container_sort_def
           split: sum.splits)

lemma change_mass_sorted: "change_mass c change s = Inr s' \<Longrightarrow> sorted_by_mass s'"
  unfolding change_mass_def by (rule update_values_sorted)

lemma remove_object_sorted:
  "sorted_by_mass s \<Longrightarrow> remove_object x (cells s) = Inr objs \<Longrightarrow> sorted_by_mass (s\<lparr>cells := objs\<rparr>)"
  by (auto simp: remove_object_def sorted_by_mass_def sorted_map_remove1 split: if_splits)

lemma absorb_sorted:
  assumes "sorted_by_mass s" and "absorb c s = Inr s'"
  shows "sorted_by_mass s'"
proof (cases "s' = s")
  case True
  then show ?thesis using assms(1) by simp
next
  case False
  with assms(2) obtain prey s1 objs where
    a: "change_mass c (Cell.mass (heap s prey)) s = Inr s1"
    and b: "remove_object prey (cells s1) = Inr objs" and c: "s' = s1\<lparr>cells := objs\<rparr>"
    by (auto simp: absorb_def Let_def bind_def split: if_splits sum.splits)
  from remove_object_sorted[OF change_mass_sorted[OF a] b] c show ?thesis by simp
qed

lemma start_new_game_sorted: "sorted_by_mass (start_new_game s)"
  by (simp add: start_new_game_def sorted_by_mass_def Container_sort_def)

lemma reachable_sorted: "reachable started s \<Longrightarrow> started \<Longrightarrow> sorted_by_mass s"
proof (induction rule: reachable.induct)
  case initial
  then show ?case by simp
next
  case (construct s pos m r s')
  then show ?case by simp
next
  case (start s)
  show ?case by (rule start_new_game_sorted)
next
  case (cell_update s delta_time c dest s')
  then show ?case using moved_only_sorted[OF Cell_update_moved_only] by blast
next
  case (absorption s c s')
  then show ?case using absorb_sorted by blast
next
  case (push s delta_time e s')
  then show ?case using moved_only_sorted[OF push_away_moved_only] by blast
qed

lemma sorted_iterate:
  "sorted (map f xs) \<Longrightarrow> sorted (map f (iterate xs))"
  by (cases xs) (simp_all add: iterate_tl)

text \<open>
  Claim C6. In every state the level reaches after \<^verbatim>\<open>start_new_game\<close>, that is whenever a
  frame can query the population, the population is sorted by mass, and iterating over
  it yields masses in non-decreasing order; a mass change leaves it sorted (it ends with
  the sort), and so does a removal. Cells are inserted before the start only, and the
  start sorts.
\<close>

theorem population_sorted_when_queried:
  assumes "reachable started s" and "started"
  shows "sorted_by_mass s
       \<and> sorted (map (\<lambda>r. Cell.mass (heap s r)) (iterate (cells s)))
       \<and> (\<forall>c change s'. change_mass c change s = Inr s' \<longrightarrow> sorted_by_mass s')
       \<and> (\<forall>x objs. remove_object x (cells s) = Inr objs \<longrightarrow> sorted_by_mass (s\<lparr>cells := objs\<rparr>))"
proof -
  have a: "sorted_by_mass s" using assms by (rule reachable_sorted)
  then have "sorted (map (\<lambda>r. Cell.mass (heap s r)) (iterate (cells s)))"
    unfolding sorted_by_mass_def by (rule sorted_iterate)
  with a show ?thesis using change_mass_sorted remove_object_sorted by blast
qed


theorem population_sorted_when_queried_witness:
  "\<exists>s. reachable True s \<and> cells s = [1, 0]
       \<and> Cell.mass (heap s 1) = 512 \<and> Cell.mass (heap s 0) = 4096
       \<and> sorted_by_mass s"
proof -
  define s1 where "s1 = \<lparr>heap = (heap (population []))(0 := cell_at (360, 360) 4096),
                          cells = [0], next_ref = 1\<rparr>"
  define s2 where "s2 = \<lparr>heap = (heap s1)(1 := cell_at (100, 100) 512),
                          cells = [0, 1], next_ref = 2\<rparr>"
  have c1: "Cell_init (360, 360) 4096 (population []) = Inr (0, s1)"
    by (simp add: Cell_init_pos s1_def population_def)
  have c2: "Cell_init (100, 100) 512 s1 = Inr (1, s2)"
    by (simp add: Cell_init_pos s2_def s1_def)
  have r1: "reachable False s1" using reachable.initial c1 by (rule reachable.construct)
  have r2: "reachable False s2" using r1 c2 by (rule reachable.construct)
  have r3: "reachable True (start_new_game s2)" using r2 by (rule reachable.start)
  have m: "Cell.mass (heap s2 0) = 4096" "Cell.mass (heap s2 1) = 512"
    by (simp_all add: s2_def s1_def mass_cell_at)
  have c: "cells s2 = [0, 1]" by (simp add: s2_def)
  have m': "Cell.mass (heap s2 (Suc 0)) = 512" using m(2) by simp
  have cs: "cells (start_new_game s2) = [1, 0]"
    by (simp add: start_new_game_def Container_sort_def c m m')
  have hm: "Cell.mass (heap (start_new_game s2) 1) = 512" "Cell.mass (heap (start_new_game s2) 0) = 4096"
    using m by (simp_all add: start_new_game_def)
  have "sorted_by_mass (start_new_game s2)"
    using population_sorted_when_queried[OF r3] by simp
  with r3 cs hm show ?thesis by blast
qed

subsection \<open>The update of the player\<close>

lemma points_position_commute:
  "(cell :: Cell)\<lparr>points := a, position := b\<rparr> = cell\<lparr>position := b, points := a\<rparr>"
  by (cases cell) simp

lemma Cell_update_shape:
  assumes "0 \<le> dt" and "0 \<le> speed (heap s c)" and "point_count (heap s c) \<noteq> 0"
  shows "\<exists>pos pts. (position (heap s c) = dest \<longrightarrow> pos = dest)
           \<and> Cell_update dt c dest s =
               Inr (s\<lparr>heap := (heap s)(c := (heap s c)\<lparr>position := clip_to_window pos, points := pts\<rparr>)\<rparr>)"
proof -
  have "0 \<le> speed (heap s c) * dt" using assms by simp
  from move_cell_ok[OF this, of dest] obtain pos pts where
    m: "move_cell dt c dest s = Inr (s\<lparr>heap := (heap s)(c := (heap s c)\<lparr>position := pos, points := pts\<rparr>)\<rparr>)"
    by blast
  have at: "position (heap s c) = dest \<longrightarrow> pos = dest"
  proof
    assume e: "position (heap s c) = dest"
    then have "move_cell dt c dest s = Inr s" by (simp add: move_cell_def)
    with m have "s = s\<lparr>heap := (heap s)(c := (heap s c)\<lparr>position := pos, points := pts\<rparr>)\<rparr>" by simp
    then have "heap s c = (heap s c)\<lparr>position := pos, points := pts\<rparr>"
      by (metis (no_types, lifting) Level3.select_convs(1) Level3.surjective Level3.update_convs(1) fun_upd_same)
    then have "position (heap s c) = pos" by (metis Cell.select_convs(1) Cell.surjective Cell.update_convs(1) Cell.update_convs(6))
    with e show "pos = dest" by simp
  qed
  define s2 where "s2 = s\<lparr>heap := (heap s)(c := (heap s c)\<lparr>position := clip_to_window pos, points := pts\<rparr>)\<rparr>"
  have "point_count (heap s2 c) \<noteq> 0" using assms(3) by (simp add: s2_def)
  from move_points_ok[OF this assms(1)] obtain ps where
    p: "move_points dt c s2 = Inr (s2\<lparr>heap := (heap s2)(c := (heap s2 c)\<lparr>points := ps\<rparr>)\<rparr>)" by blast
  define s1 where "s1 = s\<lparr>heap := (heap s)(c := (heap s c)\<lparr>position := pos, points := pts\<rparr>)\<rparr>"
  have e1: "s1\<lparr>heap := (heap s1)(c := (heap s1 c)\<lparr>position := clip_to_window (position (heap s1 c))\<rparr>)\<rparr> = s2"
    by (simp add: s1_def s2_def points_position_commute)
  have e2: "s2\<lparr>heap := (heap s2)(c := (heap s2 c)\<lparr>points := ps\<rparr>)\<rparr>
          = s\<lparr>heap := (heap s)(c := (heap s c)\<lparr>position := clip_to_window pos, points := ps\<rparr>)\<rparr>"
    by (simp add: s2_def)
  have "Cell_update dt c dest s =
      Inr (s\<lparr>heap := (heap s)(c := (heap s c)\<lparr>position := clip_to_window pos, points := ps\<rparr>)\<rparr>)"
    unfolding Cell_update_def m bind_def s1_def[symmetric] sum.case e1 p e2 ..
  with at show ?thesis by blast
qed


lemma prey_candidates_moved_only: "moved_only s s' \<Longrightarrow> prey_candidates s' c = prey_candidates s c"
  by (simp add: prey_candidates_def moved_only_def)

lemma absorb_without_candidates: "prey_candidates s c = [] \<Longrightarrow> absorb c s = Inr s"
  by (simp add: absorb_def)

lemma absorb_all_without_candidates:
  "\<forall>c\<in>set cs. prey_candidates s c = [] \<Longrightarrow> absorb_all cs s = Inr s"
  by (induction cs) (simp_all add: absorb_without_candidates bind_def)

lemma magnitude_zero: "magnitude v = 0 \<Longrightarrow> fst v = 0"
proof -
  assume "magnitude v = 0"
  then have "fst v * fst v + snd v * snd v = 0" by (simp add: magnitude_def)
  then show ?thesis by (simp add: sum_squares_eq_zero_iff)
qed

lemma push_pair_ok:
  assumes "0 \<le> dt" and "0 \<le> speed (heap s c1)" and "0 \<le> speed (heap s c2)"
    and "0 < Cell.mass (heap s c1)" and "0 < Cell.mass (heap s c2)"
  shows "\<exists>s'. push_pair dt c1 c2 s = Inr s'"
proof (cases "intersects (heap s c1) (heap s c2)
              \<and> fst (vsub (position (heap s c2)) (position (heap s c1))) \<noteq> 0")
  case False
  then have "push_pair dt c1 c2 s = Inr s"
    by (auto simp: push_pair_def Let_def vector_equals_number_def)
  then show ?thesis by (intro exI)
next
  case True
  define dir where "dir = vsub (position (heap s c2)) (position (heap s c1))"
  define M where "M = Cell.mass (heap s c1) + Cell.mass (heap s c2)"
  have M: "M \<noteq> 0" using assms(4,5) by (simp add: M_def)
  have "magnitude dir \<noteq> 0" using True magnitude_zero[of dir] by (auto simp: dir_def)
  then obtain d where d: "scale_to_length dir (radius (heap s c1) + radius (heap s c2) - magnitude dir) = Inr d"
    by (simp add: scale_to_length_def)
  have "0 \<le> speed (heap s c1) * dt" using assms by simp
  from move_cell_ok[OF this] obtain s1 where
    m1: "move_cell dt c1 (vscale (vneg d) (real_of_int (Cell.mass (heap s c2)) / real_of_int M)) s = Inr s1"
    by blast
  have mo: "moved_only s s1" using m1 by (rule move_cell_moved_only)
  then have "0 \<le> speed (heap s1 c2) * dt" using assms by (simp add: moved_only_def)
  from move_cell_ok[OF this] obtain s2 where
    m2: "move_cell dt c2 (vscale d (real_of_int (Cell.mass (heap s1 c2)) / real_of_int M)) s1 = Inr s2"
    by blast
  have "push_pair dt c1 c2 s = Inr s2"
    unfolding push_pair_def Let_def dir_def[symmetric] M_def[symmetric]
    using True M by (simp add: dir_def[symmetric] vector_equals_number_def d bind_def m1 m2)
  then show ?thesis by (intro exI)
qed

lemma movable_moved_only: "moved_only s s' \<Longrightarrow> movable s' c = movable s c"
  by (simp add: movable_def moved_only_def)

lemma push_inner_ok:
  assumes "0 \<le> dt" and "movable s c1" and "\<forall>c\<in>set cs. movable s c"
  shows "\<exists>s'. push_inner dt c1 cs s = Inr s'"
  using assms(2,3)
proof (induction cs arbitrary: s)
  case Nil
  then show ?case by simp
next
  case (Cons c cs)
  then have "\<exists>s1. push_pair dt c1 c s = Inr s1"
    using assms(1) by (intro push_pair_ok) (simp_all add: movable_def)
  then obtain s1 where s1: "push_pair dt c1 c s = Inr s1" by blast
  have mo: "moved_only s s1" using s1 by (rule push_pair_moved_only)
  have "\<exists>s'. push_inner dt c1 cs s1 = Inr s'"
    using Cons.prems by (intro Cons.IH) (simp_all add: movable_moved_only[OF mo])
  then show ?case by (simp add: s1 bind_def)
qed

lemma push_outer_ok:
  assumes "0 \<le> dt" and "\<forall>c\<in>set cs. movable s c"
  shows "\<exists>s'. push_outer dt cs s = Inr s'"
  using assms(2)
proof (induction cs arbitrary: s)
  case Nil
  then show ?case by simp
next
  case (Cons c cs)
  then have "\<exists>s1. push_inner dt c cs s = Inr s1"
    using assms(1) by (intro push_inner_ok) simp_all
  then obtain s1 where s1: "push_inner dt c cs s = Inr s1" by blast
  have mo: "moved_only s s1" using s1 by (rule push_inner_moved_only)
  have "\<exists>s'. push_outer dt cs s1 = Inr s'"
    using Cons.prems by (intro Cons.IH) (simp_all add: movable_moved_only[OF mo])
  then show ?case by (simp add: s1 bind_def)
qed

lemma push_away_ok:
  assumes "0 \<le> dt" and "\<forall>c\<in>set (entity_cells e). movable s c"
  shows "\<exists>s'. push_away dt e s = Inr s'"
  using push_outer_ok[OF assms] by (simp add: push_away_def)

lemma update_cells_ok:
  assumes "0 \<le> dt" and "\<forall>c\<in>set cs. movable s c"
  shows "\<exists>s'. update_cells dt dest cs s = Inr s'"
  using assms(2)
proof (induction cs arbitrary: s)
  case Nil
  then show ?case by simp
next
  case (Cons c cs)
  then have "movable s c" by simp
  then obtain s1 where s1: "Cell_update dt c dest s = Inr s1"
    using Cell_update_ok[OF assms(1), of s c dest] by (auto simp: movable_def)
  have mo: "moved_only s s1" using s1 by (rule Cell_update_moved_only)
  have "\<exists>s'. update_cells dt dest cs s1 = Inr s'"
    using Cons.prems by (intro Cons.IH) (simp_all add: movable_moved_only[OF mo])
  then show ?case by (simp add: s1 bind_def)
qed


text \<open>
  When the nearest prey candidate of a cell is within reach, the cell takes over its mass
  and the candidate leaves the population.
\<close>

lemma change_mass_result:
  assumes "0 < Cell.mass (heap s c) + change" and "points (heap s c) \<noteq> []"
  shows "\<exists>s'. change_mass c change s = Inr s'
           \<and> Cell.mass (heap s' c) = Cell.mass (heap s c) + change
           \<and> (\<forall>r. r \<noteq> c \<longrightarrow> heap s' r = heap s r)
           \<and> set (cells s') = set (cells s)
           \<and> (distinct (cells s) \<longrightarrow> distinct (cells s'))"
proof -
  define n where "n = get_point_count (real_of_int (Cell.mass (heap s c) + change))"
  obtain ps where "grow_points (points (heap s c)) n = Inr ps"
    using assms(2) by (cases "n - int (length (points (heap s c))) \<le> 0") (simp_all add: grow_points_def)
  then show ?thesis
    using assms(1) unfolding n_def
    by (simp add: change_mass_def update_values_def Let_def bind_def get_speed_pos Container_sort_def
             del: of_int_add)
qed

lemma prey_candidates_subset: "set (prey_candidates s c) \<subseteq> set (cells s)"
  by (cases "cells s") (auto simp: prey_candidates_def iterate_tl)

lemma absorb_nearest_candidate:
  assumes cand: "prey_candidates s c \<noteq> []"
    and nearest: "py_min (\<lambda>x. distance_squared_to (position (heap s x)) (position (heap s c)))
                    (prey_candidates s c) = Inr prey"
    and close: "distance_squared_to (position (heap s prey)) (position (heap s c)) \<le> sqr_radius (heap s c) / 4"
    and pos: "0 < Cell.mass (heap s c) + Cell.mass (heap s prey)"
    and pts: "points (heap s c) \<noteq> []"
    and dist: "distinct (cells s)"
  shows "\<exists>s'. absorb c s = Inr s'
           \<and> Cell.mass (heap s' c) = Cell.mass (heap s c) + Cell.mass (heap s prey)
           \<and> set (cells s') = set (cells s) - {prey}"
proof -
  from change_mass_result[OF pos pts] obtain s1 where
    s1: "change_mass c (Cell.mass (heap s prey)) s = Inr s1"
        "Cell.mass (heap s1 c) = Cell.mass (heap s c) + Cell.mass (heap s prey)"
        "set (cells s1) = set (cells s)" "distinct (cells s1)"
    using dist by blast
  have "prey \<in> set (prey_candidates s c)" using py_min_returns[OF nearest] by simp
  then have mem: "prey \<in> set (cells s1)" using prey_candidates_subset s1(3) by blast
  then have rm: "remove_object prey (cells s1) = Inr (remove1 prey (cells s1))"
    by (simp add: remove_object_def)
  have "absorb c s = Inr (s1\<lparr>cells := remove1 prey (cells s1)\<rparr>)"
    using cand close by (simp add: absorb_def Let_def nearest bind_def s1(1) rm)
  moreover have "set (remove1 prey (cells s1)) = set (cells s) - {prey}"
    using s1(3,4) by simp
  ultimately show ?thesis using s1(2) by simp
qed

lemma movable_cell_at: "0 < m \<Longrightarrow> heap s c = cell_at pos m \<Longrightarrow> movable s c"
  using point_count_of_positive_mass[of m]
  by (simp add: movable_def cell_at_def)

text \<open>
  Claim C3. The population holds a cell of mass 500 and the two cells of the player, of
  mass 1000; the light cell lies at the centre of the first cell of the player. After the
  own cells were updated the light cell is within the margin (\<open>500 * 1.125 < 1000\<close>) and
  at squared distance 0 from that cell, yet the prey candidates of that cell are empty: the
  light cell stands at index 0 of the population, which the iteration omits. After
  \<^verbatim>\<open>Player.update\<close> the cell of the player still has mass 1000, and the light cell is
  still in the population.
\<close>

theorem absorption_misses_first_cell:
  "\<exists>s1 e' s'. Entity_update (1 / 144) player with_prey = Inr s1
      \<and> real_of_int (Cell.mass (heap s1 0)) * 1.125 < real_of_int (Cell.mass (heap s1 1))
      \<and> distance_squared_to (position (heap s1 0)) (position (heap s1 1)) \<le> sqr_radius (heap s1 1) / 4
      \<and> prey_candidates s1 1 = []
      \<and> Player_update (1 / 144) (100, 100) player with_prey = Inr (e', s')
      \<and> Cell.mass (heap s' 1) = 1000 \<and> Cell.mass (heap s' 0) = 500 \<and> cells s' = [0, 1, 2]"
proof -
  note One_nat_def [simp del]
  let ?s = with_prey
  have h0: "heap ?s 0 = cell_at (100, 100) 500" and h1: "heap ?s 1 = cell_at (100, 100) 1000"
    and h2: "heap ?s 2 = cell_at (101, 101) 1000"
    by (simp_all add: with_prey_def heap_population)
  have cs: "cells ?s = [0, 1, 2]" by (simp add: with_prey_def cells_population upt_rec)
  have mv: "movable ?s 1" "movable ?s 2"
    using h1 h2 by (auto intro: movable_cell_at[of 1000])
  have dt: "(0::real) \<le> 1 / 144" by simp
  have eu: "Entity_update (1 / 144) player ?s = update_cells (1 / 144) (100, 100) [1, 2] ?s"
    by (simp add: Entity_update_def player_def)
  have "\<forall>c\<in>set [1, 2]. movable ?s c" using mv by simp
  from update_cells_ok[OF dt this] obtain s1 where
    s1: "update_cells (1 / 144) (100, 100) [1, 2] ?s = Inr s1" by blast
  have mo1: "moved_only ?s s1" using s1 by (rule update_cells_moved_only)
  \<comment> \<open>the positions of the cells 0 and 1 after the update of the own cells\<close>
  from mv(1) have a: "0 \<le> speed (heap ?s 1)" "point_count (heap ?s 1) \<noteq> 0"
    by (simp_all add: movable_def)
  have p1: "position (heap ?s 1) = (100, 100)" by (simp add: h1 position_cell_at)
  from Cell_update_shape[OF dt a, of "(100, 100)"] p1 obtain pts where
    u1: "Cell_update (1 / 144) 1 (100, 100) ?s =
         Inr (?s\<lparr>heap := (heap ?s)(1 := (heap ?s 1)\<lparr>position := clip_to_window (100, 100), points := pts\<rparr>)\<rparr>)"
    by auto
  define sa where "sa = ?s\<lparr>heap := (heap ?s)(1 := (heap ?s 1)\<lparr>position := clip_to_window (100, 100), points := pts\<rparr>)\<rparr>"
  have "heap sa 2 = heap ?s 2" by (simp add: sa_def)
  then have b: "0 \<le> speed (heap sa 2)" "point_count (heap sa 2) \<noteq> 0"
    using mv(2) by (simp_all add: movable_def)
  from Cell_update_shape[OF dt b, of "(100, 100)"] obtain pos2 pts2 where
    u2: "Cell_update (1 / 144) 2 (100, 100) sa =
         Inr (sa\<lparr>heap := (heap sa)(2 := (heap sa 2)\<lparr>position := clip_to_window pos2, points := pts2\<rparr>)\<rparr>)"
    by blast
  have "update_cells (1 / 144) (100, 100) [1, 2] ?s =
         Inr (sa\<lparr>heap := (heap sa)(2 := (heap sa 2)\<lparr>position := clip_to_window pos2, points := pts2\<rparr>)\<rparr>)"
    by (simp add: u1 bind_def sa_def[symmetric] u2)
  with s1 have s1v: "s1 = sa\<lparr>heap := (heap sa)(2 := (heap sa 2)\<lparr>position := clip_to_window pos2, points := pts2\<rparr>)\<rparr>"
    by simp
  have q0: "position (heap s1 0) = (100, 100)"
    by (simp add: s1v sa_def h0 position_cell_at)
  have q1: "position (heap s1 1) = (100, 100)"
    by (simp add: s1v sa_def clip_to_window_def WIN_SIZE_def)
  have m0: "Cell.mass (heap s1 0) = 500" and m1: "Cell.mass (heap s1 1) = 1000"
    and m2: "Cell.mass (heap s1 2) = 1000"
    using mo1 by (simp_all add: moved_only_def h0 h1 h2 mass_cell_at)
  have c1: "cells s1 = [0, 1, 2]" using mo1 by (simp add: moved_only_def cs)
  have margin: "real_of_int (Cell.mass (heap s1 0)) * 1.125 < real_of_int (Cell.mass (heap s1 1))"
    by (simp add: m0 m1)
  have "sqr_radius (heap s1 1) = get_radius 1000 * get_radius 1000"
    using mo1 by (simp add: moved_only_def h1 cell_at_def)
  then have near: "distance_squared_to (position (heap s1 0)) (position (heap s1 1)) \<le> sqr_radius (heap s1 1) / 4"
    by (simp add: q0 q1 distance_squared_to_def)
  have pc: "prey_candidates s1 1 = []" "prey_candidates s1 2 = []"
    by (simp_all add: prey_candidates_def iterate_tl c1 m1 m2)
  then have ab: "absorb_all [1, 2] s1 = Inr s1"
    by (intro absorb_all_without_candidates) simp
  have "\<forall>c\<in>set (entity_cells (player\<lparr>destination := (100, 100)\<rparr>)). movable s1 c"
    using mv by (simp add: player_def movable_moved_only[OF mo1])
  from push_away_ok[OF dt this] obtain s' where
    pa: "push_away (1 / 144) (player\<lparr>destination := (100, 100)\<rparr>) s1 = Inr s'" by blast
  have mo2: "moved_only s1 s'" using pa by (rule push_away_moved_only)
  have pu: "Player_update (1 / 144) (100, 100) player ?s = Inr (player\<lparr>destination := (100, 100)\<rparr>, s')"
    unfolding Player_update_def eu s1 bind_def Let_def
    using ab pa by (simp add: player_def)
  have fin: "Cell.mass (heap s' 1) = 1000" "Cell.mass (heap s' 0) = 500" "cells s' = [0, 1, 2]"
    using mo2 by (simp_all add: moved_only_def m0 m1 c1)
  from s1 margin near pc(1) pu fin show ?thesis unfolding eu by blast
qed

end
